theory Spec2Isabelle
  imports Main "HOL-Library.Word"
begin

unbundle bit_operations_syntax

section \<open>JavaScript strings\<close>

text \<open>
  A JavaScript string is a finite sequence of 16-bit code units. The functions of this
  section are the built-ins that \<^verbatim>\<open>JaegerPropagator.ts\<close> calls, written after
  their ECMAScript algorithms. The only exception any of them raises is \<^verbatim>\<open>URIError\<close>.
\<close>

type_synonym jsstring = "16 word list"

datatype error = URIError

definition js :: "string \<Rightarrow> jsstring" where
  \<comment> \<open>an ASCII literal as code units\<close>
  "js s = map (\<lambda>c. of_nat (of_char c)) s"

fun append_result :: "jsstring \<Rightarrow> error + jsstring \<Rightarrow> error + jsstring" where
  \<comment> \<open>"set R to the concatenation of R and S", with an exception raised later winning\<close>
  "append_result S (Inl e) = Inl e"
| "append_result S (Inr R) = Inr (S @ R)"

subsection \<open>\<^verbatim>\<open>decodeURIComponent\<close>\<close>

definition hex_value :: "16 word \<Rightarrow> nat option" where
  "hex_value c =
     (let n = unat c in
      if 48 \<le> n \<and> n \<le> 57 then Some (n - 48)
      else if 65 \<le> n \<and> n \<le> 70 then Some (n - 55)
      else if 97 \<le> n \<and> n \<le> 102 then Some (n - 87)
      else None)"

definition ParseHexOctet :: "16 word \<Rightarrow> 16 word \<Rightarrow> nat option" where
  "ParseHexOctet a b =
     (case hex_value a of
        None \<Rightarrow> None
      | Some x \<Rightarrow> (case hex_value b of None \<Rightarrow> None | Some y \<Rightarrow> Some (16 * x + y)))"

definition leading_ones :: "nat \<Rightarrow> nat" where
  \<comment> \<open>the number of leading 1 bits of an octet\<close>
  "leading_ones B =
     (if B < 128 then 0 else if B < 192 then 1 else if B < 224 then 2
      else if B < 240 then 3 else if B < 248 then 4 else 5)"

fun continuation :: "nat \<Rightarrow> jsstring \<Rightarrow> (nat list \<times> jsstring) option" where
  \<comment> \<open>the \<open>j\<close> escapes \<^verbatim>\<open>%XX\<close> that follow the first octet, and the rest of the string\<close>
  "continuation 0 s = Some ([], s)"
| "continuation (Suc j) (p # a # b # s) =
     (if p = 0x25 then
        (case ParseHexOctet a b of
           None \<Rightarrow> None
         | Some B \<Rightarrow>
             (case continuation j s of
                None \<Rightarrow> None
              | Some (Octets, r) \<Rightarrow> Some (B # Octets, r)))
      else None)"
| "continuation (Suc j) s = None"

definition is_continuation_byte :: "nat \<Rightarrow> bool" where
  "is_continuation_byte b \<longleftrightarrow> 128 \<le> b \<and> b < 192"

fun utf8_code_point :: "nat list \<Rightarrow> nat option" where
  \<comment> \<open>the code point of a valid UTF-8 encoding of two to four octets: no overlong form,
      no surrogate, nothing above U+10FFFF\<close>
  "utf8_code_point [b0, b1] =
     (let V = (b0 - 192) * 64 + (b1 - 128) in
      if is_continuation_byte b1 \<and> 128 \<le> V then Some V else None)"
| "utf8_code_point [b0, b1, b2] =
     (let V = (b0 - 224) * 4096 + (b1 - 128) * 64 + (b2 - 128) in
      if is_continuation_byte b1 \<and> is_continuation_byte b2 \<and> 2048 \<le> V
         \<and> \<not> (55296 \<le> V \<and> V \<le> 57343)
      then Some V else None)"
| "utf8_code_point [b0, b1, b2, b3] =
     (let V = (b0 - 240) * 262144 + (b1 - 128) * 4096 + (b2 - 128) * 64 + (b3 - 128) in
      if is_continuation_byte b1 \<and> is_continuation_byte b2 \<and> is_continuation_byte b3
         \<and> 65536 \<le> V \<and> V \<le> 1114111
      then Some V else None)"
| "utf8_code_point Octets = None"

definition UTF16EncodeCodePoint :: "nat \<Rightarrow> jsstring" where
  "UTF16EncodeCodePoint V =
     (if V \<le> 65535 then [of_nat V]
      else [of_nat ((V - 65536) div 1024 + 55296), of_nat ((V - 65536) mod 1024 + 56320)])"

lemma continuation_length:
  "continuation j s = Some (Octets, r) \<Longrightarrow> length r \<le> length s"
proof (induction j s arbitrary: Octets r rule: continuation.induct)
  case (2 j p a b s)
  then show ?case
    by (fastforce split: if_splits option.splits)
qed simp_all

function Decode :: "jsstring \<Rightarrow> error + jsstring" where
  "Decode [] = Inr []"
| "Decode (C # s) =
     (if C \<noteq> 0x25 then append_result [C] (Decode s)
      else
        (case s of
           a # b # s' \<Rightarrow>
             (case ParseHexOctet a b of
                None \<Rightarrow> Inl URIError
              | Some B \<Rightarrow>
                  (if leading_ones B = 0 then append_result [of_nat B] (Decode s')
                   else if leading_ones B = 1 \<or> 4 < leading_ones B then Inl URIError
                   else
                     (case continuation (leading_ones B - 1) s' of
                        None \<Rightarrow> Inl URIError
                      | Some (Octets, s'') \<Rightarrow>
                          (case utf8_code_point (B # Octets) of
                             None \<Rightarrow> Inl URIError
                           | Some V \<Rightarrow> append_result (UTF16EncodeCodePoint V) (Decode s'')))))
         | _ \<Rightarrow> Inl URIError))"
  by pat_completeness auto
termination
  by (relation "measure length") (auto dest!: continuation_length)

definition decodeURIComponent :: "jsstring \<Rightarrow> error + jsstring" where
  "decodeURIComponent s = Decode s"

subsection \<open>\<^verbatim>\<open>encodeURIComponent\<close>\<close>

definition unescaped :: "16 word \<Rightarrow> bool" where
  \<comment> \<open>the ASCII word characters and \<^verbatim>\<open>-.!~*'()\<close>\<close>
  "unescaped c \<longleftrightarrow>
     (let n = unat c in
      (65 \<le> n \<and> n \<le> 90) \<or> (97 \<le> n \<and> n \<le> 122) \<or> (48 \<le> n \<and> n \<le> 57)
      \<or> n \<in> {95, 45, 46, 33, 126, 42, 39, 40, 41})"

definition is_leading_surrogate :: "16 word \<Rightarrow> bool" where
  "is_leading_surrogate c \<longleftrightarrow> 55296 \<le> unat c \<and> unat c \<le> 56319"

definition is_trailing_surrogate :: "16 word \<Rightarrow> bool" where
  "is_trailing_surrogate c \<longleftrightarrow> 56320 \<le> unat c \<and> unat c \<le> 57343"

definition UTF16SurrogatePairToCodePoint :: "16 word \<Rightarrow> 16 word \<Rightarrow> nat" where
  "UTF16SurrogatePairToCodePoint lead trail =
     (unat lead - 55296) * 1024 + (unat trail - 56320) + 65536"

definition utf8_octets :: "nat \<Rightarrow> nat list" where
  \<comment> \<open>the UTF-8 transformation of a code point\<close>
  "utf8_octets cp =
     (if cp < 128 then [cp]
      else if cp < 2048 then [192 + cp div 64, 128 + cp mod 64]
      else if cp < 65536 then [224 + cp div 4096, 128 + cp div 64 mod 64, 128 + cp mod 64]
      else [240 + cp div 262144, 128 + cp div 4096 mod 64, 128 + cp div 64 mod 64,
            128 + cp mod 64])"

definition upper_hex_digit :: "nat \<Rightarrow> 16 word" where
  "upper_hex_digit d = (if d < 10 then of_nat (48 + d) else of_nat (55 + d))"

definition percent_octet :: "nat \<Rightarrow> jsstring" where
  \<comment> \<open>\<^verbatim>\<open>%\<close> and the octet as two uppercase hexadecimal digits\<close>
  "percent_octet B = [0x25, upper_hex_digit (B div 16), upper_hex_digit (B mod 16)]"

fun Encode :: "jsstring \<Rightarrow> error + jsstring" where
  "Encode [] = Inr []"
| "Encode (C # s) =
     (if unescaped C then append_result [C] (Encode s)
      else if is_trailing_surrogate C then Inl URIError
      else if is_leading_surrogate C then
        (case s of
           [] \<Rightarrow> Inl URIError
         | D # s' \<Rightarrow>
             (if is_trailing_surrogate D then
                append_result
                  (concat (map percent_octet (utf8_octets (UTF16SurrogatePairToCodePoint C D))))
                  (Encode s')
              else Inl URIError))
      else append_result (concat (map percent_octet (utf8_octets (unat C)))) (Encode s))"

definition encodeURIComponent :: "jsstring \<Rightarrow> error + jsstring" where
  "encodeURIComponent s = Encode s"

fun isWellFormed :: "jsstring \<Rightarrow> bool" where
  \<comment> \<open>\<^verbatim>\<open>s.isWellFormed()\<close>: no surrogate outside a pair\<close>
  "isWellFormed [] = True"
| "isWellFormed (C # s) =
     (if is_leading_surrogate C then
        (case s of [] \<Rightarrow> False | D # s' \<Rightarrow> is_trailing_surrogate D \<and> isWellFormed s')
      else \<not> is_trailing_surrogate C \<and> isWellFormed s)"

subsection \<open>\<^verbatim>\<open>split\<close>, \<^verbatim>\<open>padStart\<close>, \<^verbatim>\<open>substring\<close>\<close>

fun split :: "16 word \<Rightarrow> jsstring \<Rightarrow> jsstring list" where
  \<comment> \<open>\<^verbatim>\<open>s.split(sep)\<close> for a separator of one code unit; never the empty list\<close>
  "split sep [] = [[]]"
| "split sep (c # s) =
     (if c = sep then [] # split sep s
      else (case split sep s of [] \<Rightarrow> [[c]] | x # xs \<Rightarrow> (c # x) # xs))"

definition padStart :: "nat \<Rightarrow> 16 word \<Rightarrow> jsstring \<Rightarrow> jsstring" where
  \<comment> \<open>\<^verbatim>\<open>s.padStart(n, c)\<close> for a filler of one code unit\<close>
  "padStart n c s = (if n \<le> length s then s else replicate (n - length s) c @ s)"

definition substring :: "nat \<Rightarrow> jsstring \<Rightarrow> jsstring" where
  \<comment> \<open>\<^verbatim>\<open>s.substring(start)\<close>\<close>
  "substring start s = drop start s"

subsection \<open>\<^verbatim>\<open>parseInt\<close>, \<^verbatim>\<open>& 1\<close> and \<^verbatim>\<open>toString(16)\<close>\<close>

definition is_white_space :: "16 word \<Rightarrow> bool" where
  \<comment> \<open>WhiteSpace and LineTerminator, which \<^verbatim>\<open>parseInt\<close> strips from the start\<close>
  "is_white_space c \<longleftrightarrow>
     (let n = unat c in
      n \<in> {9, 10, 11, 12, 13, 32, 160, 5760, 8232, 8233, 8239, 8287, 12288, 65279}
      \<or> (8192 \<le> n \<and> n \<le> 8202))"

definition digit_value :: "nat \<Rightarrow> 16 word \<Rightarrow> nat option" where
  \<comment> \<open>the value of a radix-\<open>R\<close> digit, for the radices 10 and 16\<close>
  "digit_value R c =
     (case hex_value c of
        None \<Rightarrow> None
      | Some d \<Rightarrow> if d < R then Some d else None)"

fun digits_prefix :: "nat \<Rightarrow> jsstring \<Rightarrow> nat list" where
  \<comment> \<open>the values of the longest prefix of radix-\<open>R\<close> digits\<close>
  "digits_prefix R [] = []"
| "digits_prefix R (c # s) =
     (case digit_value R c of None \<Rightarrow> [] | Some d \<Rightarrow> d # digits_prefix R s)"

definition math_int :: "nat \<Rightarrow> nat list \<Rightarrow> nat" where
  "math_int R ds = foldl (\<lambda>acc d. acc * R + d) 0 ds"

definition parseInt :: "jsstring \<Rightarrow> int option" where
  \<comment> \<open>\<^verbatim>\<open>parseInt(s)\<close> with no radix argument; \<open>None\<close> is NaN. The value is exact below
      \<open>2 ^ 53\<close>, and the source passes a string of two characters.\<close>
  "parseInt inputString =
     (let S = dropWhile is_white_space inputString;
          sign = (case S of c # _ \<Rightarrow> if c = 0x2D then - 1 else 1 | [] \<Rightarrow> (1::int));
          S1 = (case S of c # r \<Rightarrow> if c = 0x2B \<or> c = 0x2D then r else S | [] \<Rightarrow> S);
          hex = (case S1 of a # b # _ \<Rightarrow> a = 0x30 \<and> (b = 0x78 \<or> b = 0x58) | _ \<Rightarrow> False);
          R = (if hex then 16 else 10);
          S2 = (if hex then drop 2 S1 else S1);
          Z = digits_prefix R S2
      in if Z = [] then None else Some (sign * int (math_int R Z)))"

definition ToInt32 :: "int option \<Rightarrow> 32 word" where
  \<comment> \<open>NaN converts to 0, an integer wraps to 32 bits\<close>
  "ToInt32 x = (case x of None \<Rightarrow> 0 | Some i \<Rightarrow> word_of_int i)"

definition bitand_1 :: "int option \<Rightarrow> nat" where
  \<comment> \<open>\<^verbatim>\<open>x & 1\<close>\<close>
  "bitand_1 x = unat (ToInt32 x AND 1)"

definition lower_hex_digit :: "nat \<Rightarrow> 16 word" where
  "lower_hex_digit d = (if d < 10 then of_nat (48 + d) else of_nat (87 + d))"

fun toString16 :: "nat \<Rightarrow> jsstring" where
  \<comment> \<open>\<^verbatim>\<open>n.toString(16)\<close> for a non-negative integer\<close>
  "toString16 n =
     (if n < 16 then [lower_hex_digit n]
      else toString16 (n div 16) @ [lower_hex_digit (n mod 16)])"

declare toString16.simps [simp del]

subsection \<open>The two regular expressions\<close>

definition is_hex_digit :: "16 word \<Rightarrow> bool" where
  \<comment> \<open>the class \<^verbatim>\<open>[0-9a-f]\<close> under the flag \<^verbatim>\<open>i\<close>\<close>
  "is_hex_digit c \<longleftrightarrow> hex_value c \<noteq> None"

definition flags_regex_match :: "jsstring \<Rightarrow> bool" where
  \<comment> \<open>\<^verbatim>\<open>flags.match(/^[0-9a-f]{2}$/i)\<close> is truthy\<close>
  "flags_regex_match flags \<longleftrightarrow>
     (case flags of [a, b] \<Rightarrow> is_hex_digit a \<and> is_hex_digit b | _ \<Rightarrow> False)"

definition ascii_lower :: "16 word \<Rightarrow> 16 word" where
  "ascii_lower c = (if 65 \<le> unat c \<and> unat c \<le> 90 then c + 32 else c)"

definition is_line_terminator :: "16 word \<Rightarrow> bool" where
  \<comment> \<open>the code units that \<^verbatim>\<open>.\<close> does not match\<close>
  "is_line_terminator c \<longleftrightarrow> unat c \<in> {10, 13, 8232, 8233}"

definition UBER_TRACE_ID_HEADER :: jsstring where
  "UBER_TRACE_ID_HEADER = js ''uber-trace-id''"

definition UBER_BAGGAGE_HEADER_PREFIX :: jsstring where
  "UBER_BAGGAGE_HEADER_PREFIX = js ''uberctx''"

definition UBER_BAGGAGE_HEADER_REGEX_test :: "jsstring \<Rightarrow> bool" where
  \<comment> \<open>\<^verbatim>\<open>/^uberctx-(.+)/i.test(key)\<close>: the prefix in either case, then at least one code
      unit that is not a line terminator\<close>
  "UBER_BAGGAGE_HEADER_REGEX_test key \<longleftrightarrow>
     (case drop 8 key of
        [] \<Rightarrow> False
      | c # _ \<Rightarrow> map ascii_lower (take 8 key) = js ''uberctx-'' \<and> \<not> is_line_terminator c)"

section \<open>The context, baggage and carrier interfaces\<close>

text \<open>
  The propagator reaches its collaborators through the functions it imports from the
  OpenTelemetry API. A context is an immutable object: writing a slot allocates a new
  context object, so a context carries the reference \<open>ref\<close> of its object and the writing
  functions take the next free reference and return the one after it.
\<close>

record SpanContext =
  traceId :: jsstring
  spanId :: jsstring
  isRemote :: bool
  traceFlags :: nat

record BaggageEntry =
  entry_value :: jsstring
  metadata :: "jsstring option"

type_synonym Baggage = "(jsstring \<times> BaggageEntry) list"

record Context =
  ref :: nat
  spanContext :: "SpanContext option"
  baggage :: "Baggage option"
  tracingSuppressed :: bool

definition NONE :: nat where
  \<comment> \<open>\<^verbatim>\<open>TraceFlags.NONE\<close>\<close>
  "NONE = 0"

definition getSpanContext :: "Context \<Rightarrow> SpanContext option" where
  "getSpanContext context = spanContext context"

definition getBaggage :: "Context \<Rightarrow> Baggage option" where
  "getBaggage context = baggage context"

definition isTracingSuppressed :: "Context \<Rightarrow> bool" where
  "isTracingSuppressed context = tracingSuppressed context"

definition setSpanContext :: "Context \<Rightarrow> SpanContext \<Rightarrow> nat \<Rightarrow> Context \<times> nat" where
  \<comment> \<open>Modelled from the spec: the API's \<^verbatim>\<open>setSpanContext\<close> "produces a new context with
      SpanContext attached".\<close>
  "setSpanContext context sc free = (context\<lparr>ref := free, spanContext := Some sc\<rparr>, Suc free)"

definition setBaggage :: "Context \<Rightarrow> Baggage \<Rightarrow> nat \<Rightarrow> Context \<times> nat" where
  \<comment> \<open>Modelled from the spec: the API's \<^verbatim>\<open>setBaggage\<close> attaches the baggage to a new
      context.\<close>
  "setBaggage context b free = (context\<lparr>ref := free, baggage := Some b\<rparr>, Suc free)"

definition createBaggage :: Baggage where
  \<comment> \<open>Modelled from the spec: "a freshly created empty baggage".\<close>
  "createBaggage = []"

fun setEntry :: "Baggage \<Rightarrow> jsstring \<Rightarrow> BaggageEntry \<Rightarrow> Baggage" where
  \<comment> \<open>Modelled from the spec: "overwriting any existing entry with the same key"; a new
      key goes to the end.\<close>
  "setEntry [] key entry = [(key, entry)]"
| "setEntry ((k, e) # b) key entry =
     (if k = key then (key, entry) # b else (k, e) # setEntry b key entry)"

definition getAllEntries :: "Baggage \<Rightarrow> (jsstring \<times> BaggageEntry) list" where
  "getAllEntries b = b"

datatype header_value = Undefined | Str jsstring | Arr "jsstring list"

record 'c TextMapGetter =
  get :: "'c \<Rightarrow> jsstring \<Rightarrow> header_value"
  keys :: "'c \<Rightarrow> jsstring list"

type_synonym 'c TextMapSetter = "'c \<Rightarrow> jsstring \<Rightarrow> jsstring \<Rightarrow> 'c"

fun first_if_array :: "header_value \<Rightarrow> jsstring option" where
  \<comment> \<open>\<^verbatim>\<open>Array.isArray(value) ? value[0] : value\<close>; \<open>None\<close> is \<^verbatim>\<open>undefined\<close>\<close>
  "first_if_array Undefined = None"
| "first_if_array (Str s) = Some s"
| "first_if_array (Arr []) = None"
| "first_if_array (Arr (s # _)) = Some s"

section \<open>The propagator\<close>

record JaegerPropagator =
  jaegerTraceHeader :: jsstring

definition new_JaegerPropagator :: "jsstring option \<Rightarrow> JaegerPropagator" where
  \<comment> \<open>the constructor: \<^verbatim>\<open>customTraceHeader || UBER_TRACE_ID_HEADER\<close>\<close>
  "new_JaegerPropagator customTraceHeader =
     \<lparr>jaegerTraceHeader =
        (case customTraceHeader of
           None \<Rightarrow> UBER_TRACE_ID_HEADER
         | Some h \<Rightarrow> if h = [] then UBER_TRACE_ID_HEADER else h)\<rparr>"

definition traceFlags_field :: "SpanContext \<Rightarrow> jsstring" where
  \<comment> \<open>\<^verbatim>\<open>`0${(spanContext.traceFlags || TraceFlags.NONE).toString(16)}`\<close>\<close>
  "traceFlags_field sc =
     js ''0'' @ toString16 (if traceFlags sc = 0 then NONE else traceFlags sc)"

definition trace_header_value :: "SpanContext \<Rightarrow> jsstring" where
  \<comment> \<open>\<^verbatim>\<open>`${spanContext.traceId}:${spanContext.spanId}:0:${traceFlags}`\<close>\<close>
  "trace_header_value sc =
     traceId sc @ js '':'' @ spanId sc @ js '':0:'' @ traceFlags_field sc"

fun inject_entries ::
  "'c TextMapSetter \<Rightarrow> 'c \<Rightarrow> (jsstring \<times> BaggageEntry) list \<Rightarrow> 'c \<times> error option" where
  \<comment> \<open>the loop over \<^verbatim>\<open>baggage.getAllEntries()\<close>: an exception leaves the carrier as the
      earlier iterations wrote it\<close>
  "inject_entries setter carrier [] = (carrier, None)"
| "inject_entries setter carrier ((key, entry) # es) =
     (case encodeURIComponent (entry_value entry) of
        Inl e \<Rightarrow> (carrier, Some e)
      | Inr v \<Rightarrow>
          inject_entries setter
            (setter carrier (UBER_BAGGAGE_HEADER_PREFIX @ js ''-'' @ key) v) es)"

definition inject ::
  "JaegerPropagator \<Rightarrow> Context \<Rightarrow> 'c \<Rightarrow> 'c TextMapSetter \<Rightarrow> 'c \<times> error option" where
  \<comment> \<open>the carrier as the setter calls leave it, and the exception raised, if any\<close>
  "inject this context carrier setter =
     (let carrier1 =
            (case getSpanContext context of
               None \<Rightarrow> carrier
             | Some sc \<Rightarrow>
                 if isTracingSuppressed context = False
                 then setter carrier (jaegerTraceHeader this) (trace_header_value sc)
                 else carrier)
      in case getBaggage context of
           None \<Rightarrow> (carrier1, None)
         | Some b \<Rightarrow> inject_entries setter carrier1 (getAllEntries b))"

definition deserializeSpanContext :: "jsstring \<Rightarrow> error + SpanContext option" where
  \<comment> \<open>\<open>Inr None\<close> is the result \<^verbatim>\<open>null\<close>\<close>
  "deserializeSpanContext serializedString =
     (case decodeURIComponent serializedString of
        Inl e \<Rightarrow> Inl e
      | Inr decoded \<Rightarrow>
          (case split 0x3A decoded of
             [traceId', spanId', parent, flags] \<Rightarrow>
               Inr (Some \<lparr>traceId = padStart 32 0x30 traceId', spanId = spanId',
                          isRemote = True,
                          traceFlags =
                            (if flags_regex_match flags then bitand_1 (parseInt flags)
                             else 1)\<rparr>)
           | _ \<Rightarrow> Inr None))"

fun merge_baggage ::
  "Baggage \<Rightarrow> (jsstring \<times> jsstring option) list \<Rightarrow> error + Baggage" where
  \<comment> \<open>the loop over \<^verbatim>\<open>baggageValues\<close>\<close>
  "merge_baggage currentBaggage [] = Inr currentBaggage"
| "merge_baggage currentBaggage ((key, None) # rest) = merge_baggage currentBaggage rest"
| "merge_baggage currentBaggage ((key, Some v) # rest) =
     (case decodeURIComponent v of
        Inl e \<Rightarrow> Inl e
      | Inr decoded \<Rightarrow>
          merge_baggage
            (setEntry currentBaggage key \<lparr>entry_value = decoded, metadata = None\<rparr>) rest)"

definition baggageValues ::
  "'c \<Rightarrow> 'c TextMapGetter \<Rightarrow> (jsstring \<times> jsstring option) list" where
  "baggageValues carrier getter =
     map (\<lambda>key. (substring (length UBER_BAGGAGE_HEADER_PREFIX + 1) key,
                 first_if_array (get getter carrier key)))
       (filter UBER_BAGGAGE_HEADER_REGEX_test (keys getter carrier))"

definition "extract" ::
  "JaegerPropagator \<Rightarrow> Context \<Rightarrow> 'c \<Rightarrow> 'c TextMapGetter \<Rightarrow> nat \<Rightarrow> error + Context \<times> nat"
  where
  \<comment> \<open>the last argument is the next free reference; the context returned comes with the
      next free reference after the call\<close>
  "extract this context carrier getter free =
     (let uberTraceId = first_if_array (get getter carrier (jaegerTraceHeader this));
          values = baggageValues carrier getter
      in case (case uberTraceId of
                 None \<Rightarrow> Inr (context, free)
               | Some s \<Rightarrow>
                   (case deserializeSpanContext s of
                      Inl e \<Rightarrow> Inl e
                    | Inr None \<Rightarrow> Inr (context, free)
                    | Inr (Some sc) \<Rightarrow> Inr (setSpanContext context sc free))) of
           Inl e \<Rightarrow> Inl e
         | Inr (newContext, free1) \<Rightarrow>
             if length values = 0 then Inr (newContext, free1)
             else
               (case merge_baggage
                       (case getBaggage context of None \<Rightarrow> createBaggage | Some b \<Rightarrow> b)
                       values of
                  Inl e \<Rightarrow> Inl e
                | Inr currentBaggage \<Rightarrow> Inr (setBaggage newContext currentBaggage free1)))"

definition fields :: "JaegerPropagator \<Rightarrow> jsstring list" where
  "fields this = [jaegerTraceHeader this]"

subsection \<open>Carriers\<close>

text \<open>
  The propagator is generic in the carrier. Two carriers serve the statements below: a
  log of the setter calls in the order made, and a plain object read through the API's
  default getter, whose string keys are enumerated in insertion order.
\<close>

definition record_call :: "(jsstring \<times> jsstring) list TextMapSetter" where
  "record_call calls key v = calls @ [(key, v)]"

type_synonym object_carrier = "(jsstring \<times> header_value) list"

definition object_getter :: "object_carrier TextMapGetter" where
  \<comment> \<open>Modelled from the spec: the carrier's get-by-name and list-all-names,
      \<^verbatim>\<open>carrier[key]\<close> and \<^verbatim>\<open>Object.keys(carrier)\<close>.\<close>
  "object_getter =
     \<lparr>get = (\<lambda>carrier key. case map_of carrier key of None \<Rightarrow> Undefined | Some v \<Rightarrow> v),
      keys = map fst\<rparr>"

section \<open>Facts about the built-ins\<close>

lemma Decode_no_percent: "0x25 \<notin> set s \<Longrightarrow> Decode s = Inr s"
  by (induction s) auto

lemma split_not_Nil: "split sep s \<noteq> []"
  by (induction s) (auto split: list.splits)

lemma split_no_separator: "sep \<notin> set a \<Longrightarrow> split sep a = [a]"
  by (induction a) auto

lemma split_append: "sep \<notin> set a \<Longrightarrow> split sep (a @ sep # r) = a # split sep r"
  by (induction a) (auto split: list.splits)

lemma length_4_iff: "length xs = 4 \<longleftrightarrow> (\<exists>a b c d. xs = [a, b, c, d])"
  by (cases xs; simp; cases "tl xs"; simp; cases "tl (tl xs)"; simp;
      cases "tl (tl (tl xs))"; simp; cases "tl (tl (tl (tl xs)))"; simp)

lemma hex_digit_facts:
  "is_hex_digit x \<Longrightarrow>
   \<not> is_white_space x \<and> x \<noteq> 0x2D \<and> x \<noteq> 0x2B \<and> x \<noteq> 0x78 \<and> x \<noteq> 0x58 \<and> x \<noteq> 0x25
   \<and> x \<noteq> 0x3A"
  by (auto simp: is_hex_digit_def hex_value_def is_white_space_def Let_def split: if_splits)

text \<open>
  After the regular expression has accepted the flags, \<^verbatim>\<open>parseInt\<close> finds no white
  space, no sign and no \<^verbatim>\<open>0x\<close> prefix: it reads the leading decimal digits.
\<close>

lemma parseInt_two_hex_digits:
  assumes "flags_regex_match f"
  shows "parseInt f =
           (if digits_prefix 10 f = [] then None
            else Some (int (math_int 10 (digits_prefix 10 f))))"
proof -
  from assms obtain x y where f: "f = [x, y]" and x: "is_hex_digit x" and y: "is_hex_digit y"
    by (auto simp: flags_regex_match_def split: list.splits)
  from x y show ?thesis
    using hex_digit_facts [of x] hex_digit_facts [of y]
    by (simp add: f parseInt_def Let_def)
qed

lemma bitand_1_NaN: "bitand_1 None = 0"
  by (simp add: bitand_1_def ToInt32_def)

lemma bitand_1_int: "bitand_1 (Some i) = nat (i mod 2)"
proof -
  have "(word_of_int i :: 32 word) AND 1 = word_of_int i mod 2"
    by (rule and_one_eq)
  also have "\<dots> = of_bool (odd (word_of_int i :: 32 word))"
    by (rule mod_2_eq_odd)
  also have "\<dots> = of_bool (odd i)"
    by (simp only: even_of_int_iff)
  finally have "unat ((word_of_int i :: 32 word) AND 1) = of_bool (odd i)"
    by (cases "odd i") simp_all
  also have "\<dots> = nat (i mod 2)"
    by (cases "odd i") (simp_all add: odd_iff_mod_2_eq_one)
  finally show ?thesis
    by (simp add: bitand_1_def ToInt32_def)
qed

lemma toString16_0: "toString16 0 = js ''0''"
  by (simp add: toString16.simps js_def lower_hex_digit_def)

lemma toString16_1: "toString16 (Suc 0) = js ''1''"
  by (simp add: toString16.simps js_def lower_hex_digit_def)

section \<open>Decoding the trace header\<close>

lemma deserialize_fields:
  "decodeURIComponent s = Inr d \<Longrightarrow> split 0x3A d = [a, b, c, f] \<Longrightarrow>
   deserializeSpanContext s =
     Inr (Some \<lparr>traceId = padStart 32 0x30 a, spanId = b, isRemote = True,
               traceFlags = (if flags_regex_match f then bitand_1 (parseInt f) else 1)\<rparr>)"
  by (simp add: deserializeSpanContext_def)

lemma deserialize_null:
  "decodeURIComponent s = Inr d \<Longrightarrow> length (split 0x3A d) \<noteq> 4 \<Longrightarrow>
   deserializeSpanContext s = Inr None"
  by (auto simp: deserializeSpanContext_def split: list.splits)

lemma deserialize_throws:
  "decodeURIComponent s = Inl e \<Longrightarrow> deserializeSpanContext s = Inl e"
  by (simp add: deserializeSpanContext_def)

lemma deserialize_null_iff:
  "deserializeSpanContext s = Inr None \<longleftrightarrow>
     (\<exists>d. decodeURIComponent s = Inr d \<and> length (split 0x3A d) \<noteq> 4)"
proof (cases "decodeURIComponent s")
  case (Inl e)
  then show ?thesis by (simp add: deserialize_throws)
next
  case (Inr d)
  show ?thesis
  proof (cases "length (split 0x3A d) = 4")
    case True
    then obtain a b c f where "split 0x3A d = [a, b, c, f]"
      by (auto simp: length_4_iff)
    with Inr show ?thesis by (simp add: deserialize_fields)
  next
    case False
    with Inr show ?thesis by (simp add: deserialize_null)
  qed
qed

lemma decode_plain: "0x25 \<notin> set s \<Longrightarrow> decodeURIComponent s = Inr s"
  by (simp add: decodeURIComponent_def Decode_no_percent)

text \<open>
  Claim C4. \<^verbatim>\<open>deserializeSpanContext\<close> returns \<^verbatim>\<open>null\<close> exactly when the
  percent-decoded input, split on the colon, does not have four fields; the inputs
  \<^verbatim>\<open>a:b:0\<close> (three fields) and \<^verbatim>\<open>a:b:0:1:2\<close> (five fields) are rejected so. No
  other check returns \<^verbatim>\<open>null\<close>.
\<close>

theorem field_count_is_the_only_rejection:
  "(deserializeSpanContext s = Inr None \<longleftrightarrow>
      (\<exists>d. decodeURIComponent s = Inr d \<and> length (split 0x3A d) \<noteq> 4))
   \<and> deserializeSpanContext (js ''a:b:0'') = Inr None
   \<and> deserializeSpanContext (js ''a:b:0:1:2'') = Inr None"
proof -
  have three: "decodeURIComponent (js ''a:b:0'') = Inr (js ''a:b:0'')"
    by (rule decode_plain) (simp add: js_def)
  have five: "decodeURIComponent (js ''a:b:0:1:2'') = Inr (js ''a:b:0:1:2'')"
    by (rule decode_plain) (simp add: js_def)
  have "deserializeSpanContext (js ''a:b:0'') = Inr None"
    by (rule deserialize_null [OF three]) (simp add: js_def)
  moreover have "deserializeSpanContext (js ''a:b:0:1:2'') = Inr None"
    by (rule deserialize_null [OF five]) (simp add: js_def)
  ultimately show ?thesis
    using deserialize_null_iff [of s] by simp
qed

theorem field_count_is_the_only_rejection_witness:
  "(\<exists>d. decodeURIComponent (js ''a:b'') = Inr d \<and> length (split 0x3A d) \<noteq> 4)
   \<and> deserializeSpanContext (js ''a:b'') = Inr None"
proof -
  have "decodeURIComponent (js ''a:b'') = Inr (js ''a:b'')"
    by (rule decode_plain) (simp add: js_def)
  moreover have "length (split 0x3A (js ''a:b'')) \<noteq> 4"
    by (simp add: js_def)
  ultimately have "\<exists>d. decodeURIComponent (js ''a:b'') = Inr d \<and> length (split 0x3A d) \<noteq> 4"
    by blast
  then show ?thesis
    using field_count_is_the_only_rejection [of "js ''a:b''"] by blast
qed

text \<open>
  Claim C8. When the percent-decoded input has four fields, the context is accepted
  whatever the first two fields hold: the trace id is the first field with
  \<^verbatim>\<open>0\<close> characters put in front up to length 32 (a longer field is kept whole),
  and the span id is the second field as it stands.
\<close>

theorem decoded_identifiers_are_not_validated:
  assumes "decodeURIComponent s = Inr d" and "split 0x3A d = [a, b, c, f]"
  shows "\<exists>sc. deserializeSpanContext s = Inr (Some sc)
           \<and> traceId sc = replicate (32 - length a) 0x30 @ a
           \<and> length (traceId sc) = max 32 (length a)
           \<and> spanId sc = b"
  using deserialize_fields [OF assms] by (simp add: padStart_def)

theorem decoded_identifiers_are_not_validated_witness:
  "decodeURIComponent (js ''zz:?:0:1'') = Inr (js ''zz:?:0:1'')
   \<and> split 0x3A (js ''zz:?:0:1'') = [js ''zz'', js ''?'', js ''0'', js ''1'']
   \<and> (\<exists>sc. deserializeSpanContext (js ''zz:?:0:1'') = Inr (Some sc)
          \<and> traceId sc = js ''000000000000000000000000000000zz''
          \<and> spanId sc = js ''?'')"
proof -
  have d: "decodeURIComponent (js ''zz:?:0:1'') = Inr (js ''zz:?:0:1'')"
    by (rule decode_plain) (simp add: js_def)
  have s: "split 0x3A (js ''zz:?:0:1'') = [js ''zz'', js ''?'', js ''0'', js ''1'']"
    by (simp add: js_def)
  have r: "replicate (32 - length (js ''zz'')) 0x30 @ js ''zz''
             = js ''000000000000000000000000000000zz''"
    by (simp add: js_def eval_nat_numeral)
  show ?thesis
    using decoded_identifiers_are_not_validated [OF d s] d s r by auto
qed

text \<open>
  Claim C3. When the percent-decoded input has four fields, the context is accepted
  whatever the flags field holds. If the field is two hexadecimal digits in either
  case, \<^verbatim>\<open>parseInt\<close> reads its leading decimal digits (NaN when there is none) and
  the trace flags are that number \<^verbatim>\<open>& 1\<close>, which is 0 for NaN and the parity
  otherwise; if not, the trace flags are 1. They are 0 or 1 in every case.
\<close>

theorem decoded_traceFlags:
  assumes "decodeURIComponent s = Inr d" and "split 0x3A d = [a, b, c, f]"
  shows "\<exists>sc. deserializeSpanContext s = Inr (Some sc)
           \<and> traceFlags sc \<in> {0, 1}
           \<and> (if flags_regex_match f
              then parseInt f =
                     (if digits_prefix 10 f = [] then None
                      else Some (int (math_int 10 (digits_prefix 10 f))))
                   \<and> traceFlags sc = bitand_1 (parseInt f)
                   \<and> traceFlags sc =
                       (if digits_prefix 10 f = [] then 0
                        else math_int 10 (digits_prefix 10 f) mod 2)
              else traceFlags sc = 1)"
proof (cases "flags_regex_match f")
  case True
  have m: "nat (int n mod 2) = n mod 2" for n :: nat
    by (simp add: nat_mod_distrib)
  have "bitand_1 (parseInt f) =
          (if digits_prefix 10 f = [] then 0 else math_int 10 (digits_prefix 10 f) mod 2)"
    by (simp add: parseInt_two_hex_digits [OF True] bitand_1_NaN bitand_1_int m)
  moreover from this have "bitand_1 (parseInt f) \<in> {0, 1}"
    by (simp split: if_splits) linarith
  ultimately show ?thesis
    using deserialize_fields [OF assms] parseInt_two_hex_digits [OF True] True by simp
next
  case False
  then show ?thesis
    using deserialize_fields [OF assms] by simp
qed

theorem decoded_traceFlags_witness:
  "decodeURIComponent (js ''a:b:0:1f'') = Inr (js ''a:b:0:1f'')
   \<and> split 0x3A (js ''a:b:0:1f'') = [js ''a'', js ''b'', js ''0'', js ''1f'']
   \<and> flags_regex_match (js ''1f'')
   \<and> parseInt (js ''1f'') = Some 1
   \<and> (\<exists>sc. deserializeSpanContext (js ''a:b:0:1f'') = Inr (Some sc) \<and> traceFlags sc = 1)"
proof -
  have d: "decodeURIComponent (js ''a:b:0:1f'') = Inr (js ''a:b:0:1f'')"
    by (rule decode_plain) (simp add: js_def)
  have s: "split 0x3A (js ''a:b:0:1f'') = [js ''a'', js ''b'', js ''0'', js ''1f'']"
    by (simp add: js_def)
  have m: "flags_regex_match (js ''1f'')"
    by (simp add: js_def flags_regex_match_def is_hex_digit_def hex_value_def)
  have p: "digits_prefix 10 (js ''1f'') = [1]"
    by (simp add: js_def digit_value_def hex_value_def)
  show ?thesis
    using decoded_traceFlags [OF d s] d s m p by (auto simp: math_int_def)
qed

section \<open>Encoding the trace header\<close>

lemma below_16:
  "(d::nat) < 16 \<Longrightarrow>
   d = 0 \<or> d = 1 \<or> d = 2 \<or> d = 3 \<or> d = 4 \<or> d = 5 \<or> d = 6 \<or> d = 7 \<or> d = 8 \<or> d = 9
   \<or> d = 10 \<or> d = 11 \<or> d = 12 \<or> d = 13 \<or> d = 14 \<or> d = 15"
  by arith

lemma lower_hex_digit_value: "d < 16 \<Longrightarrow> digit_value 16 (lower_hex_digit d) = Some d"
  by (drule below_16) (auto simp: digit_value_def hex_value_def lower_hex_digit_def)

lemma lower_hex_digit_set: "d < 16 \<Longrightarrow> lower_hex_digit d \<in> set (js ''0123456789abcdef'')"
  by (drule below_16) (auto simp: lower_hex_digit_def js_def)

lemma digits_prefix_append:
  "\<forall>c \<in> set a. digit_value R c \<noteq> None \<Longrightarrow>
   digits_prefix R (a @ b) = digits_prefix R a @ digits_prefix R b"
  by (induction a) (auto split: option.splits)

lemma toString16_digits: "\<forall>c \<in> set (toString16 n). digit_value 16 c \<noteq> None"
proof (induction n rule: toString16.induct)
  case (1 n)
  show ?case
  proof (cases "n < 16")
    case True
    then show ?thesis
      by (simp add: toString16.simps [of n] lower_hex_digit_value)
  next
    case False
    have "n mod 16 < 16" by simp
    with False 1 show ?thesis
      by (auto simp: toString16.simps [of n] lower_hex_digit_value)
  qed
qed

lemma toString16_lowercase: "set (toString16 n) \<subseteq> set (js ''0123456789abcdef'')"
proof (induction n rule: toString16.induct)
  case (1 n)
  show ?case
  proof (cases "n < 16")
    case True
    then show ?thesis
      using lower_hex_digit_set [of n] by (simp add: toString16.simps [of n])
  next
    case False
    have "n mod 16 < 16" by simp
    with False 1 show ?thesis
      using lower_hex_digit_set [of "n mod 16"] by (simp add: toString16.simps [of n])
  qed
qed

lemma toString16_value: "math_int 16 (digits_prefix 16 (toString16 n)) = n"
proof (induction n rule: toString16.induct)
  case (1 n)
  show ?case
  proof (cases "n < 16")
    case True
    then show ?thesis
      by (simp add: toString16.simps [of n] lower_hex_digit_value math_int_def)
  next
    case False
    have m: "n mod 16 < 16" by simp
    from False 1 have ih: "math_int 16 (digits_prefix 16 (toString16 (n div 16))) = n div 16"
      by simp
    have "digits_prefix 16 (toString16 n) =
            digits_prefix 16 (toString16 (n div 16)) @ [n mod 16]"
      using False m
      by (simp add: toString16.simps [of n] digits_prefix_append toString16_digits
          lower_hex_digit_value)
    then show ?thesis
      using ih by (simp add: math_int_def)
  qed
qed

lemma toString16_length: "length (toString16 n) = 1 \<longleftrightarrow> n < 16"
proof (cases "n < 16")
  case True
  then show ?thesis by (simp add: toString16.simps [of n])
next
  case False
  have "toString16 (n div 16) \<noteq> []"
    by (simp add: toString16.simps [of "n div 16"])
  with False show ?thesis
    by (simp add: toString16.simps [of n])
qed

lemma inject_entries_record_call:
  "inject_entries record_call calls es =
     (calls @ fst (inject_entries record_call [] es), snd (inject_entries record_call [] es))"
proof (induction es arbitrary: calls)
  case Nil
  then show ?case by simp
next
  case (Cons x es)
  obtain key entry where x: "x = (key, entry)" by (cases x)
  show ?case
  proof (cases "encodeURIComponent (entry_value entry)")
    case (Inl e)
    then show ?thesis by (simp add: x)
  next
    case (Inr v)
    then show ?thesis
      using Cons.IH [of "record_call calls (UBER_BAGGAGE_HEADER_PREFIX @ js ''-'' @ key) v"]
        Cons.IH [of "record_call [] (UBER_BAGGAGE_HEADER_PREFIX @ js ''-'' @ key) v"]
      by (simp add: x record_call_def)
  qed
qed


definition example_span_context :: SpanContext where
  "example_span_context =
     \<lparr>traceId = js ''aaaaaaaaaaaaaaaaaaaaaaaaaaaaaaaa'', spanId = js ''bbbbbbbbbbbbbbbb'',
      isRemote = False, traceFlags = 1\<rparr>"

definition example_context :: Context where
  "example_context =
     \<lparr>ref = 0, spanContext = Some example_span_context, baggage = None,
      tracingSuppressed = False\<rparr>"

text \<open>
  Claim C7. \<^verbatim>\<open>inject\<close> on a context that carries a span context and is not
  suppressed first sets the trace header to the trace id, the span id, \<^verbatim>\<open>0\<close> and
  the flags field, joined with colons and not percent-encoded. The flags field is
  \<^verbatim>\<open>0\<close> followed by the trace flags in lowercase hexadecimal: two characters up to
  15, more above.
\<close>

theorem trace_header_format:
  assumes "getSpanContext context = Some sc" and "isTracingSuppressed context = False"
  shows "(\<exists>rest. fst (inject this context [] record_call) =
            (jaegerTraceHeader this,
             traceId sc @ js '':'' @ spanId sc @ js '':'' @ js ''0'' @ js '':''
               @ js ''0'' @ toString16 (traceFlags sc)) # rest)
         \<and> set (toString16 (traceFlags sc)) \<subseteq> set (js ''0123456789abcdef'')
         \<and> math_int 16 (digits_prefix 16 (toString16 (traceFlags sc))) = traceFlags sc
         \<and> (if traceFlags sc \<le> 15 then length (js ''0'' @ toString16 (traceFlags sc)) = 2
            else 2 < length (js ''0'' @ toString16 (traceFlags sc)))"
proof -
  have v: "trace_header_value sc =
             traceId sc @ js '':'' @ spanId sc @ js '':'' @ js ''0'' @ js '':''
               @ js ''0'' @ toString16 (traceFlags sc)"
    by (simp add: trace_header_value_def traceFlags_field_def NONE_def js_def)
  have "\<exists>rest. fst (inject this context [] record_call) =
          (jaegerTraceHeader this, trace_header_value sc) # rest"
  proof (cases "getBaggage context")
    case None
    with assms show ?thesis by (simp add: inject_def record_call_def)
  next
    case (Some b)
    with assms show ?thesis
      using inject_entries_record_call
              [of "[(jaegerTraceHeader this, trace_header_value sc)]" "getAllEntries b"]
      by (simp add: inject_def record_call_def)
  qed
  moreover have "if traceFlags sc \<le> 15 then length (toString16 (traceFlags sc)) = 1
                 else 1 < length (toString16 (traceFlags sc))"
  proof -
    define l where "l = length (toString16 (traceFlags sc))"
    have "toString16 (traceFlags sc) \<noteq> []"
      by (simp add: toString16.simps [of "traceFlags sc"])
    then have "l \<noteq> 0"
      by (simp add: l_def)
    moreover have "l = 1 \<longleftrightarrow> traceFlags sc < 16"
      unfolding l_def by (rule toString16_length)
    ultimately have "if traceFlags sc \<le> 15 then l = 1 else 1 < l"
      by (cases "traceFlags sc < 16") (simp, arith)
    then show ?thesis
      by (simp only: l_def)
  qed
  ultimately show ?thesis
    using toString16_lowercase [of "traceFlags sc"] toString16_value [of "traceFlags sc"]
    by (simp add: v js_def split: if_splits)
qed


theorem trace_header_format_witness:
  "getSpanContext (example_context\<lparr>spanContext := Some (example_span_context\<lparr>traceFlags := 255\<rparr>)\<rparr>)
     = Some (example_span_context\<lparr>traceFlags := 255\<rparr>)
   \<and> isTracingSuppressed
         (example_context\<lparr>spanContext := Some (example_span_context\<lparr>traceFlags := 255\<rparr>)\<rparr>)
       = False
   \<and> (\<exists>rest. fst (inject (new_JaegerPropagator None)
                   (example_context\<lparr>spanContext :=
                      Some (example_span_context\<lparr>traceFlags := 255\<rparr>)\<rparr>)
                   [] record_call) =
          (js ''uber-trace-id'',
           js ''aaaaaaaaaaaaaaaaaaaaaaaaaaaaaaaa:bbbbbbbbbbbbbbbb:0:0ff'') # rest)"
proof -
  let ?sc = "example_span_context\<lparr>traceFlags := 255\<rparr>"
  let ?ctx = "example_context\<lparr>spanContext := Some ?sc\<rparr>"
  have g: "getSpanContext ?ctx = Some ?sc"
    by (simp add: getSpanContext_def)
  have t: "isTracingSuppressed ?ctx = False"
    by (simp add: isTracingSuppressed_def example_context_def)
  have h: "toString16 255 = js ''ff''"
    by (simp add: toString16.simps [of 255] toString16.simps [of 15] lower_hex_digit_def
        js_def)
  show ?thesis
    using trace_header_format [OF g t, of "new_JaegerPropagator None"] g t
    by (simp add: h new_JaegerPropagator_def UBER_TRACE_ID_HEADER_def
        example_span_context_def js_def)
qed

text \<open>
  Claim C2. For a span context whose trace id is 32 hexadecimal digits, whose span id
  is hexadecimal digits and whose trace flags are 0 or 1, decoding the trace header
  value that \<^verbatim>\<open>inject\<close> writes gives back the trace id, the span id and the trace
  flags, with \<^verbatim>\<open>isRemote\<close> true.
\<close>

theorem trace_header_roundtrip:
  assumes tid: "length (traceId sc) = 32" "\<forall>c \<in> set (traceId sc). is_hex_digit c"
    and sid: "\<forall>c \<in> set (spanId sc). is_hex_digit c"
    and fl: "traceFlags sc \<in> {0, 1}"
  shows "deserializeSpanContext (trace_header_value sc) =
           Inr (Some \<lparr>traceId = traceId sc, spanId = spanId sc, isRemote = True,
                     traceFlags = traceFlags sc\<rparr>)"
proof -
  let ?flags = "traceFlags_field sc"
  have flags: "?flags = js ''00'' \<or> ?flags = js ''01''"
    using fl by (auto simp: traceFlags_field_def NONE_def toString16_0 toString16_1 js_def)
  have nt: "0x3A \<notin> set (traceId sc)" "0x25 \<notin> set (traceId sc)"
    using tid hex_digit_facts by blast+
  have ns: "0x3A \<notin> set (spanId sc)" "0x25 \<notin> set (spanId sc)"
    using sid hex_digit_facts by blast+
  have "0x25 \<notin> set (trace_header_value sc)"
    using nt ns flags by (auto simp: trace_header_value_def js_def)
  then have dec: "decodeURIComponent (trace_header_value sc) = Inr (trace_header_value sc)"
    by (rule decode_plain)
  have "trace_header_value sc =
          traceId sc @ 0x3A # (spanId sc @ 0x3A # (js ''0'' @ 0x3A # ?flags))"
    by (simp add: trace_header_value_def js_def)
  then have spl:
    "split 0x3A (trace_header_value sc) = [traceId sc, spanId sc, js ''0'', ?flags]"
    using nt ns flags
    by (auto simp: split_append split_no_separator js_def)
  have fv: "(if flags_regex_match ?flags then bitand_1 (parseInt ?flags) else 1)
              = traceFlags sc"
    using flags fl
    by (auto simp: js_def flags_regex_match_def is_hex_digit_def hex_value_def parseInt_def
        is_white_space_def digit_value_def math_int_def bitand_1_int bitand_1_NaN
        traceFlags_field_def NONE_def toString16_0 toString16_1)
  show ?thesis
    by (simp add: deserialize_fields [OF dec spl] fv padStart_def tid)
qed

theorem trace_header_roundtrip_witness:
  "length (traceId example_span_context) = 32
   \<and> traceFlags example_span_context = 1
   \<and> trace_header_value example_span_context
       = js ''aaaaaaaaaaaaaaaaaaaaaaaaaaaaaaaa:bbbbbbbbbbbbbbbb:0:01''
   \<and> deserializeSpanContext (js ''aaaaaaaaaaaaaaaaaaaaaaaaaaaaaaaa:bbbbbbbbbbbbbbbb:0:01'') =
       Inr (Some (example_span_context\<lparr>isRemote := True\<rparr>))"
proof -
  have l: "length (traceId example_span_context) = 32"
    by (simp add: example_span_context_def js_def)
  have t: "\<forall>c \<in> set (traceId example_span_context). is_hex_digit c"
    by (simp add: example_span_context_def js_def is_hex_digit_def hex_value_def)
  have s: "\<forall>c \<in> set (spanId example_span_context). is_hex_digit c"
    by (simp add: example_span_context_def js_def is_hex_digit_def hex_value_def)
  have f: "traceFlags example_span_context \<in> {0, 1}"
    by (simp add: example_span_context_def)
  have v: "trace_header_value example_span_context
             = js ''aaaaaaaaaaaaaaaaaaaaaaaaaaaaaaaa:bbbbbbbbbbbbbbbb:0:01''"
    by (simp add: trace_header_value_def traceFlags_field_def toString16_1
        example_span_context_def js_def)
  show ?thesis
    using trace_header_roundtrip [OF l t s f] l v
    by (simp add: example_span_context_def)
qed

section \<open>Percent-encoding and percent-decoding\<close>

text \<open>
  \<^verbatim>\<open>encodeURIComponent\<close> raises \<^verbatim>\<open>URIError\<close> exactly on a string that is not
  well-formed UTF-16, and \<^verbatim>\<open>decodeURIComponent\<close> undoes it on every other string.
\<close>

lemma upper_hex_digit_value: "d < 16 \<Longrightarrow> hex_value (upper_hex_digit d) = Some d"
  by (drule below_16) (auto simp: hex_value_def upper_hex_digit_def)

lemma ParseHexOctet_percent:
  assumes "B < 256"
  shows "ParseHexOctet (upper_hex_digit (B div 16)) (upper_hex_digit (B mod 16)) = Some B"
proof -
  from assms have "B div 16 < 16" by simp
  moreover have "B mod 16 < 16" by simp
  ultimately show ?thesis
    by (simp add: ParseHexOctet_def upper_hex_digit_value)
qed

lemma continuation_percent:
  "\<forall>B \<in> set Octets. B < 256 \<Longrightarrow>
   continuation (length Octets) (concat (map percent_octet Octets) @ rest) = Some (Octets, rest)"
  by (induction Octets) (simp_all add: percent_octet_def ParseHexOctet_percent)

lemma Decode_percent_ascii:
  "B < 128 \<Longrightarrow> Decode (percent_octet B @ rest) = append_result [of_nat B] (Decode rest)"
  by (simp add: percent_octet_def ParseHexOctet_percent leading_ones_def)

lemma Decode_percent_multi:
  assumes "B < 256" and "\<forall>b \<in> set Octets. b < 256"
    and "leading_ones B = Suc (length Octets)" and "Octets \<noteq> []" and "length Octets \<le> 3"
    and "utf8_code_point (B # Octets) = Some V"
  shows "Decode (concat (map percent_octet (B # Octets)) @ rest) =
           append_result (UTF16EncodeCodePoint V) (Decode rest)"
  using assms
  by (simp add: percent_octet_def [of B] ParseHexOctet_percent continuation_percent)

lemma utf8_two:
  assumes "128 \<le> cp" and "cp < 2048"
  shows "utf8_code_point [192 + cp div 64, 128 + cp mod 64] = Some cp"
    and "leading_ones (192 + cp div 64) = 2"
    and "192 + cp div 64 < 256"
proof -
  have "cp div 64 * 64 + cp mod 64 = cp" by simp
  with assms show "utf8_code_point [192 + cp div 64, 128 + cp mod 64] = Some cp"
    by (simp add: is_continuation_byte_def)
  from assms have "cp div 64 < 32" by simp
  then show "leading_ones (192 + cp div 64) = 2" and "192 + cp div 64 < 256"
    by (simp_all add: leading_ones_def)
qed

lemma utf8_three:
  assumes "2048 \<le> cp" and "cp < 65536" and "\<not> (55296 \<le> cp \<and> cp \<le> 57343)"
  shows "utf8_code_point [224 + cp div 4096, 128 + cp div 64 mod 64, 128 + cp mod 64] = Some cp"
    and "leading_ones (224 + cp div 4096) = 3"
    and "224 + cp div 4096 < 256"
proof -
  have "cp mod 4096 = 64 * (cp div 64 mod 64) + cp mod 64"
    using mod_mult2_eq [of cp 64 64] by simp
  moreover have "cp div 4096 * 4096 + cp mod 4096 = cp"
    by simp
  ultimately have "cp div 4096 * 4096 + cp div 64 mod 64 * 64 + cp mod 64 = cp"
    by linarith
  with assms show
    "utf8_code_point [224 + cp div 4096, 128 + cp div 64 mod 64, 128 + cp mod 64] = Some cp"
    by (simp add: is_continuation_byte_def)
  from assms have "cp div 4096 < 16" by simp
  then show "leading_ones (224 + cp div 4096) = 3" and "224 + cp div 4096 < 256"
    by (simp_all add: leading_ones_def)
qed

lemma utf8_four:
  assumes "65536 \<le> cp" and "cp \<le> 1114111"
  shows "utf8_code_point
           [240 + cp div 262144, 128 + cp div 4096 mod 64, 128 + cp div 64 mod 64,
            128 + cp mod 64] = Some cp"
    and "leading_ones (240 + cp div 262144) = 4"
    and "240 + cp div 262144 < 256"
proof -
  have "cp mod 4096 = 64 * (cp div 64 mod 64) + cp mod 64"
    using mod_mult2_eq [of cp 64 64] by simp
  moreover have "cp mod 262144 = 4096 * (cp div 4096 mod 64) + cp mod 4096"
    using mod_mult2_eq [of cp 4096 64] by simp
  moreover have "cp div 262144 * 262144 + cp mod 262144 = cp"
    by simp
  ultimately have
    "cp div 262144 * 262144 + cp div 4096 mod 64 * 4096 + cp div 64 mod 64 * 64
       + cp mod 64 = cp"
    by linarith
  with assms show
    "utf8_code_point
       [240 + cp div 262144, 128 + cp div 4096 mod 64, 128 + cp div 64 mod 64,
        128 + cp mod 64] = Some cp"
    by (simp add: is_continuation_byte_def)
  from assms have "cp div 262144 < 8" by simp
  then show "leading_ones (240 + cp div 262144) = 4" and "240 + cp div 262144 < 256"
    by (simp_all add: leading_ones_def)
qed

lemma Decode_utf8_octets:
  assumes "cp \<le> 1114111" and "\<not> (55296 \<le> cp \<and> cp \<le> 57343)"
  shows "Decode (concat (map percent_octet (utf8_octets cp)) @ rest) =
           append_result (UTF16EncodeCodePoint cp) (Decode rest)"
proof -
  have c: "128 + n mod 64 < 256" for n :: nat
    by simp
  consider "cp < 128" | "128 \<le> cp" "cp < 2048" | "2048 \<le> cp" "cp < 65536"
    | "65536 \<le> cp"
    by linarith
  then show ?thesis
  proof cases
    case 1
    then have "UTF16EncodeCodePoint cp = [of_nat cp]"
      by (simp add: UTF16EncodeCodePoint_def)
    with 1 show ?thesis
      using Decode_percent_ascii [of cp rest] by (simp add: utf8_octets_def)
  next
    case 2
    then have "utf8_octets cp = [192 + cp div 64, 128 + cp mod 64]"
      by (simp add: utf8_octets_def)
    then show ?thesis
      using Decode_percent_multi [of "192 + cp div 64" "[128 + cp mod 64]" cp rest]
        utf8_two [OF 2] c
      by simp
  next
    case 3
    then have "utf8_octets cp = [224 + cp div 4096, 128 + cp div 64 mod 64, 128 + cp mod 64]"
      by (simp add: utf8_octets_def)
    then show ?thesis
      using Decode_percent_multi
              [of "224 + cp div 4096" "[128 + cp div 64 mod 64, 128 + cp mod 64]" cp rest]
        utf8_three [OF 3 assms(2)] c
      by simp
  next
    case 4
    then have "utf8_octets cp =
                 [240 + cp div 262144, 128 + cp div 4096 mod 64, 128 + cp div 64 mod 64,
                  128 + cp mod 64]"
      by (simp add: utf8_octets_def)
    then show ?thesis
      using Decode_percent_multi
              [of "240 + cp div 262144"
                  "[128 + cp div 4096 mod 64, 128 + cp div 64 mod 64, 128 + cp mod 64]" cp rest]
        utf8_four [OF 4 assms(1)] c
      by simp
  qed
qed

lemma unescaped_facts:
  "unescaped C \<Longrightarrow> C \<noteq> 0x25 \<and> \<not> is_leading_surrogate C \<and> \<not> is_trailing_surrogate C"
  by (auto simp: unescaped_def is_leading_surrogate_def is_trailing_surrogate_def Let_def)

lemma UTF16Encode_unit:
  assumes "\<not> is_leading_surrogate C" and "\<not> is_trailing_surrogate C"
  shows "UTF16EncodeCodePoint (unat C) = [C]"
    and "unat C \<le> 1114111" and "\<not> (55296 \<le> unat C \<and> unat C \<le> 57343)"
proof -
  have "unat C < 65536"
    using unsigned_less [of C, where ?'a = nat] by simp
  then show "UTF16EncodeCodePoint (unat C) = [C]" and "unat C \<le> 1114111"
    by (simp_all add: UTF16EncodeCodePoint_def)
  from assms show "\<not> (55296 \<le> unat C \<and> unat C \<le> 57343)"
    by (auto simp: is_leading_surrogate_def is_trailing_surrogate_def)
qed

lemma UTF16Encode_pair:
  assumes "is_leading_surrogate C" and "is_trailing_surrogate D"
  shows "UTF16EncodeCodePoint (UTF16SurrogatePairToCodePoint C D) = [C, D]"
    and "UTF16SurrogatePairToCodePoint C D \<le> 1114111"
    and "\<not> (55296 \<le> UTF16SurrogatePairToCodePoint C D
           \<and> UTF16SurrogatePairToCodePoint C D \<le> 57343)"
proof -
  define c where "c = unat C - 55296"
  define d where "d = unat D - 56320"
  from assms have c: "c < 1024" "unat C = c + 55296"
    by (auto simp: c_def is_leading_surrogate_def)
  from assms have d: "d < 1024" "unat D = d + 56320"
    by (auto simp: d_def is_trailing_surrogate_def)
  have cp: "UTF16SurrogatePairToCodePoint C D = c * 1024 + d + 65536"
    by (simp add: UTF16SurrogatePairToCodePoint_def c_def d_def)
  have "(c * 1024 + d) div 1024 = c" "(c * 1024 + d) mod 1024 = d"
    using d(1) by simp_all
  then have "UTF16EncodeCodePoint (c * 1024 + d + 65536) =
               [of_nat (unat C), of_nat (unat D)]"
    by (simp add: UTF16EncodeCodePoint_def c(2) d(2))
  then show "UTF16EncodeCodePoint (UTF16SurrogatePairToCodePoint C D) = [C, D]"
    by (simp add: cp)
  from c(1) d(1) show "UTF16SurrogatePairToCodePoint C D \<le> 1114111"
    and "\<not> (55296 \<le> UTF16SurrogatePairToCodePoint C D
           \<and> UTF16SurrogatePairToCodePoint C D \<le> 57343)"
    by (simp_all add: cp)
qed

lemma Encode_throws_iff: "Encode s = Inl URIError \<longleftrightarrow> \<not> isWellFormed s"
proof (induction s rule: Encode.induct)
  case 1
  show ?case by simp
next
  case (2 C s)
  have ar: "append_result S r = Inl URIError \<longleftrightarrow> r = Inl URIError" for S r
    by (cases r) (auto intro: error.exhaust)
  show ?case
  proof (cases "unescaped C")
    case True
    with 2 show ?thesis
      using unescaped_facts [OF True] by (simp add: ar)
  next
    case False
    show ?thesis
    proof (cases "is_leading_surrogate C")
      case True
      then have nt: "\<not> is_trailing_surrogate C"
        by (auto simp: is_leading_surrogate_def is_trailing_surrogate_def)
      show ?thesis
      proof (cases s)
        case Nil
        with False True nt show ?thesis by simp
      next
        case (Cons D s')
        with False True nt 2(2) show ?thesis
          by (simp add: ar)
      qed
    next
      case nl: False
      with False 2(3) show ?thesis
        by (simp add: ar)
    qed
  qed
qed

lemma Decode_Encode: "Encode s = Inr e \<Longrightarrow> Decode e = Inr s"
proof (induction s arbitrary: e rule: Encode.induct)
  case 1
  then show ?case by simp
next
  case (2 C s)
  have ar: "append_result S r = Inr e \<Longrightarrow> \<exists>e'. r = Inr e' \<and> e = S @ e'" for S r
    by (cases r) auto
  show ?case
  proof (cases "unescaped C")
    case True
    with 2(4) obtain e' where e': "Encode s = Inr e'" "e = C # e'"
      by (auto dest: ar)
    with 2(1) True have "Decode e' = Inr s" by simp
    with e' show ?thesis
      using unescaped_facts [OF True] by simp
  next
    case False
    show ?thesis
    proof (cases "is_leading_surrogate C")
      case True
      then have nt: "\<not> is_trailing_surrogate C"
        by (auto simp: is_leading_surrogate_def is_trailing_surrogate_def)
      from 2(4) False True nt obtain D s' where s: "s = D # s'"
        by (cases s) auto
      with 2(4) False True nt have D: "is_trailing_surrogate D"
        by (auto split: if_splits)
      let ?cp = "UTF16SurrogatePairToCodePoint C D"
      from 2(4) False True nt s D obtain e' where
        e': "Encode s' = Inr e'" "e = concat (map percent_octet (utf8_octets ?cp)) @ e'"
        by (auto dest: ar)
      with 2(2) False True nt s D have "Decode e' = Inr s'" by simp
      then show ?thesis
        using Decode_utf8_octets [OF UTF16Encode_pair(2,3) [OF True D], of e']
          UTF16Encode_pair(1) [OF True D]
        by (simp add: e' s)
    next
      case nl: False
      with 2(4) False have nt: "\<not> is_trailing_surrogate C"
        by (auto split: if_splits)
      from 2(4) False nl nt obtain e' where
        e': "Encode s = Inr e'" "e = concat (map percent_octet (utf8_octets (unat C))) @ e'"
        by (auto dest: ar)
      with 2(3) False nl nt have "Decode e' = Inr s" by simp
      then show ?thesis
        using Decode_utf8_octets [OF UTF16Encode_unit(2,3) [OF nl nt], of e']
          UTF16Encode_unit(1) [OF nl nt]
        by (simp add: e')
    qed
  qed
qed

lemma encodeURIComponent_throws_iff:
  "encodeURIComponent s = Inl URIError \<longleftrightarrow> \<not> isWellFormed s"
  by (simp add: encodeURIComponent_def Encode_throws_iff)

lemma encodeURIComponent_wellformed:
  "isWellFormed s \<Longrightarrow> \<exists>v. encodeURIComponent s = Inr v"
  using encodeURIComponent_throws_iff [of s]
  by (cases "encodeURIComponent s") (auto intro: error.exhaust)

lemma decode_encode:
  "encodeURIComponent s = Inr v \<Longrightarrow> decodeURIComponent v = Inr s"
  by (simp add: encodeURIComponent_def decodeURIComponent_def Decode_Encode)

section \<open>Extracting\<close>

definition empty_context :: Context where
  "empty_context = \<lparr>ref = 0, spanContext = None, baggage = None, tracingSuppressed = False\<rparr>"

definition baggage_entries :: "Context \<Rightarrow> (jsstring \<times> BaggageEntry) list" where
  \<comment> \<open>the entries \<^verbatim>\<open>inject\<close> iterates over: none when the context has no baggage\<close>
  "baggage_entries context =
     (case getBaggage context of None \<Rightarrow> [] | Some b \<Rightarrow> getAllEntries b)"

lemma error_is_URIError: "(e :: error) = URIError"
  by (cases e) simp

lemma baggageValues_Nil_iff:
  "baggageValues carrier getter = [] \<longleftrightarrow>
     (\<forall>key \<in> set (keys getter carrier). \<not> UBER_BAGGAGE_HEADER_REGEX_test key)"
  by (auto simp: baggageValues_def filter_empty_conv)

lemma merge_baggage_all_undefined:
  "\<forall>(key, v) \<in> set vs. v = None \<Longrightarrow> merge_baggage b vs = Inr b"
  by (induction b vs rule: merge_baggage.induct) auto

lemma merge_baggage_throws_iff:
  "merge_baggage b vs = Inl URIError \<longleftrightarrow>
     (\<exists>key v. (key, Some v) \<in> set vs \<and> decodeURIComponent v = Inl URIError)"
proof (induction b vs rule: merge_baggage.induct)
  case (3 currentBaggage key v rest)
  show ?case
  proof (cases "decodeURIComponent v")
    case (Inl e)
    then show ?thesis
      using error_is_URIError [of e] by auto
  next
    case (Inr decoded)
    with 3 show ?thesis by auto
  qed
qed auto

lemma extract_no_baggage_headers:
  assumes "baggageValues carrier getter = []"
  shows "extract this context carrier getter free =
           (case first_if_array (get getter carrier (jaegerTraceHeader this)) of
              None \<Rightarrow> Inr (context, free)
            | Some s \<Rightarrow>
                (case deserializeSpanContext s of
                   Inl e \<Rightarrow> Inl e
                 | Inr None \<Rightarrow> Inr (context, free)
                 | Inr (Some sc) \<Rightarrow> Inr (setSpanContext context sc free)))"
  using assms by (auto simp: extract_def Let_def split: option.splits sum.splits)

lemma deserialize_returns:
  "decodeURIComponent s \<noteq> Inl URIError \<Longrightarrow> \<exists>r. deserializeSpanContext s = Inr r"
  by (cases "decodeURIComponent s")
     (auto simp: deserializeSpanContext_def error_is_URIError split: list.splits)

lemma extract_throws_iff:
  "extract this context carrier getter free = Inl URIError \<longleftrightarrow>
     (\<exists>s. first_if_array (get getter carrier (jaegerTraceHeader this)) = Some s
          \<and> decodeURIComponent s = Inl URIError)
     \<or> (\<exists>key v. (key, Some v) \<in> set (baggageValues carrier getter)
          \<and> decodeURIComponent v = Inl URIError)"
proof -
  let ?t = "first_if_array (get getter carrier (jaegerTraceHeader this))"
  let ?b = "case getBaggage context of None \<Rightarrow> createBaggage | Some b \<Rightarrow> b"
  have d: "deserializeSpanContext s = Inl URIError \<longleftrightarrow> decodeURIComponent s = Inl URIError"
    for s
    by (cases "decodeURIComponent s")
       (auto simp: deserializeSpanContext_def error_is_URIError split: list.splits)
  show ?thesis
  proof (cases ?t)
    case None
    then show ?thesis
      using merge_baggage_throws_iff [of ?b "baggageValues carrier getter"]
      by (cases "merge_baggage ?b (baggageValues carrier getter)")
         (auto simp: extract_def Let_def setBaggage_def error_is_URIError)
  next
    case (Some s)
    show ?thesis
    proof (cases "deserializeSpanContext s")
      case (Inl e)
      with Some show ?thesis
        using d [of s] by (simp add: extract_def Let_def error_is_URIError)
    next
      case (Inr res)
      with d [of s] have nd: "decodeURIComponent s \<noteq> Inl URIError"
        by simp
      from Some Inr nd show ?thesis
        using merge_baggage_throws_iff [of ?b "baggageValues carrier getter"]
        by (cases "merge_baggage ?b (baggageValues carrier getter)"; cases res)
           (auto simp: extract_def Let_def setBaggage_def setSpanContext_def error_is_URIError)
    qed
  qed
qed


text \<open>
  Claim C6, as stated, fails: a trace header that fails to percent-decode makes
  \<^verbatim>\<open>extract\<close> raise \<^verbatim>\<open>URIError\<close>, although no carrier key matches the baggage
  pattern.
\<close>

theorem undecodable_trace_header_raises:
  "first_if_array (get object_getter [(js ''uber-trace-id'', Str (js ''%zz''))]
       (jaegerTraceHeader (new_JaegerPropagator None))) = Some (js ''%zz'')
   \<and> decodeURIComponent (js ''%zz'') = Inl URIError
   \<and> filter UBER_BAGGAGE_HEADER_REGEX_test
         (keys object_getter [(js ''uber-trace-id'', Str (js ''%zz''))]) = []
   \<and> extract (new_JaegerPropagator None) empty_context
         [(js ''uber-trace-id'', Str (js ''%zz''))] object_getter 1 = Inl URIError"
proof -
  let ?carrier = "[(js ''uber-trace-id'', Str (js ''%zz''))]"
  let ?p = "new_JaegerPropagator None"
  have h: "first_if_array (get object_getter ?carrier (jaegerTraceHeader ?p))
             = Some (js ''%zz'')"
    by (simp add: object_getter_def new_JaegerPropagator_def UBER_TRACE_ID_HEADER_def)
  have d: "decodeURIComponent (js ''%zz'') = Inl URIError"
    by (simp add: decodeURIComponent_def js_def ParseHexOctet_def hex_value_def)
  have k: "filter UBER_BAGGAGE_HEADER_REGEX_test (keys object_getter ?carrier) = []"
    by (simp add: object_getter_def UBER_BAGGAGE_HEADER_REGEX_test_def js_def)
  have "extract ?p empty_context ?carrier object_getter 1 = Inl URIError"
    using h d by (subst extract_throws_iff) blast
  with h d k show ?thesis by simp
qed

text \<open>
  Claim C6, amended. When the trace header is absent, or present and decoded to
  \<^verbatim>\<open>null\<close> (its percent-decoded value does not have four fields), and no carrier key
  matches the baggage pattern, \<^verbatim>\<open>extract\<close> returns the context object it was given
  and allocates none. On every input \<^verbatim>\<open>extract\<close> raises \<^verbatim>\<open>URIError\<close> or returns a
  context: it has no \<^verbatim>\<open>null\<close> result.
\<close>

theorem extract_identity:
  assumes "first_if_array (get getter carrier (jaegerTraceHeader this)) = None
           \<or> (\<exists>s. first_if_array (get getter carrier (jaegerTraceHeader this)) = Some s
                  \<and> deserializeSpanContext s = Inr None)"
    and "\<forall>key \<in> set (keys getter carrier). \<not> UBER_BAGGAGE_HEADER_REGEX_test key"
  shows "extract this context carrier getter free = Inr (context, free)
         \<and> (extract this' context' carrier' getter' free' = Inl URIError
            \<or> (\<exists>c f. extract this' context' carrier' getter' free' = Inr (c, f)))"
proof -
  from assms(2) have "baggageValues carrier getter = []"
    by (simp add: baggageValues_Nil_iff)
  then have "extract this context carrier getter free = Inr (context, free)"
    using assms(1) by (auto simp: extract_no_baggage_headers)
  moreover have "extract this' context' carrier' getter' free' = Inl URIError
      \<or> (\<exists>c f. extract this' context' carrier' getter' free' = Inr (c, f))"
    by (cases "extract this' context' carrier' getter' free'")
       (auto simp: error_is_URIError)
  ultimately show ?thesis by simp
qed


theorem extract_identity_witness:
  "first_if_array (get object_getter [(js ''uber-trace-id'', Str (js ''a:b:0''))]
       (jaegerTraceHeader (new_JaegerPropagator None))) = Some (js ''a:b:0'')
   \<and> deserializeSpanContext (js ''a:b:0'') = Inr None
   \<and> extract (new_JaegerPropagator None) empty_context
         [(js ''uber-trace-id'', Str (js ''a:b:0''))] object_getter 1 = Inr (empty_context, 1)"
proof -
  let ?carrier = "[(js ''uber-trace-id'', Str (js ''a:b:0''))]"
  let ?p = "new_JaegerPropagator None"
  have h: "first_if_array (get object_getter ?carrier (jaegerTraceHeader ?p))
             = Some (js ''a:b:0'')"
    by (simp add: object_getter_def new_JaegerPropagator_def UBER_TRACE_ID_HEADER_def)
  have "decodeURIComponent (js ''a:b:0'') = Inr (js ''a:b:0'')"
    by (rule decode_plain) (simp add: js_def)
  then have d: "deserializeSpanContext (js ''a:b:0'') = Inr None"
    by (rule deserialize_null) (simp add: js_def)
  have k: "\<forall>key \<in> set (keys object_getter ?carrier). \<not> UBER_BAGGAGE_HEADER_REGEX_test key"
    by (simp add: object_getter_def UBER_BAGGAGE_HEADER_REGEX_test_def js_def)
  from h d have "first_if_array (get object_getter ?carrier (jaegerTraceHeader ?p)) = None
      \<or> (\<exists>s. first_if_array (get object_getter ?carrier (jaegerTraceHeader ?p)) = Some s
             \<and> deserializeSpanContext s = Inr None)"
    by blast
  from extract_identity [OF this k, THEN conjunct1, of empty_context 1] h d show ?thesis
    by simp
qed

text \<open>
  Claim C10, as stated, fails: with a baggage key whose value is undefined in the
  carrier, a trace header that fails to percent-decode makes \<^verbatim>\<open>extract\<close> raise
  \<^verbatim>\<open>URIError\<close> before it reaches the baggage, and no context is returned.
\<close>

theorem undefined_baggage_value_and_bad_trace_header:
  "filter UBER_BAGGAGE_HEADER_REGEX_test
     (keys object_getter [(js ''uber-trace-id'', Str (js ''%'')), (js ''uberctx-a'', Undefined)])
     = [js ''uberctx-a'']
   \<and> first_if_array
         (get object_getter [(js ''uber-trace-id'', Str (js ''%'')), (js ''uberctx-a'', Undefined)]
            (js ''uberctx-a'')) = None
   \<and> extract (new_JaegerPropagator None) empty_context
         [(js ''uber-trace-id'', Str (js ''%'')), (js ''uberctx-a'', Undefined)]
         object_getter 1 = Inl URIError"
proof -
  let ?carrier = "[(js ''uber-trace-id'', Str (js ''%'')), (js ''uberctx-a'', Undefined)]"
  let ?p = "new_JaegerPropagator None"
  have h: "first_if_array (get object_getter ?carrier (jaegerTraceHeader ?p)) = Some (js ''%'')"
    by (simp add: object_getter_def new_JaegerPropagator_def UBER_TRACE_ID_HEADER_def)
  have d: "decodeURIComponent (js ''%'') = Inl URIError"
    by (simp add: decodeURIComponent_def js_def)
  have k: "filter UBER_BAGGAGE_HEADER_REGEX_test (keys object_getter ?carrier) = [js ''uberctx-a'']"
    by (simp add: object_getter_def UBER_BAGGAGE_HEADER_REGEX_test_def js_def
        ascii_lower_def is_line_terminator_def)
  have u: "first_if_array (get object_getter ?carrier (js ''uberctx-a'')) = None"
    by (simp add: object_getter_def js_def)
  have "extract ?p empty_context ?carrier object_getter 1 = Inl URIError"
    using h d by (subst extract_throws_iff) blast
  with k u show ?thesis by simp
qed

text \<open>
  Claim C10, amended. When at least one carrier key matches the baggage pattern, the
  value fetched for every matching key is undefined, and the trace header is absent or
  percent-decodes without error, \<^verbatim>\<open>extract\<close> returns a context that carries a
  baggage: the baggage of the input context, or an empty one when it had none. The
  context returned is a new object, not the input context, although no entry was added
  or changed. (The input context's reference lies below the next free one.)
\<close>

theorem extract_attaches_unchanged_baggage:
  assumes m: "\<exists>key \<in> set (keys getter carrier). UBER_BAGGAGE_HEADER_REGEX_test key"
    and u: "\<forall>key \<in> set (keys getter carrier).
              UBER_BAGGAGE_HEADER_REGEX_test key \<longrightarrow> first_if_array (get getter carrier key) = None"
    and t: "\<forall>s. first_if_array (get getter carrier (jaegerTraceHeader this)) = Some s
              \<longrightarrow> decodeURIComponent s \<noteq> Inl URIError"
    and r: "ref context < free"
  shows "\<exists>context' free'.
           extract this context carrier getter free = Inr (context', free')
           \<and> getBaggage context' =
               Some (case getBaggage context of None \<Rightarrow> createBaggage | Some b \<Rightarrow> b)
           \<and> ref context' \<noteq> ref context"
proof -
  let ?b = "case getBaggage context of None \<Rightarrow> createBaggage | Some b \<Rightarrow> b"
  from m have ne: "baggageValues carrier getter \<noteq> []"
    by (simp add: baggageValues_Nil_iff)
  from u have "\<forall>(key, v) \<in> set (baggageValues carrier getter). v = None"
    by (auto simp: baggageValues_def)
  then have mb: "merge_baggage ?b (baggageValues carrier getter) = Inr ?b"
    by (rule merge_baggage_all_undefined)
  show ?thesis
  proof (cases "first_if_array (get getter carrier (jaegerTraceHeader this))")
    case None
    with ne mb r show ?thesis
      by (simp add: extract_def Let_def setBaggage_def getBaggage_def)
  next
    case (Some s)
    with t obtain res where res: "deserializeSpanContext s = Inr res"
      using deserialize_returns by blast
    show ?thesis
    proof (cases res)
      case None
      with Some res ne mb r show ?thesis
        by (simp add: extract_def Let_def setBaggage_def getBaggage_def)
    next
      case (Some sc)
      with \<open>first_if_array (get getter carrier (jaegerTraceHeader this)) = Some s\<close> res ne mb r
      show ?thesis
        by (simp add: extract_def Let_def setBaggage_def setSpanContext_def getBaggage_def)
    qed
  qed
qed


theorem extract_attaches_unchanged_baggage_witness:
  "filter UBER_BAGGAGE_HEADER_REGEX_test (keys object_getter [(js ''UberCtx-a'', Undefined)])
     = [js ''UberCtx-a'']
   \<and> first_if_array (get object_getter [(js ''UberCtx-a'', Undefined)] (js ''UberCtx-a'')) = None
   \<and> ref empty_context < 1
   \<and> extract (new_JaegerPropagator None) empty_context [(js ''UberCtx-a'', Undefined)]
         object_getter 1 = Inr (empty_context\<lparr>ref := 1, baggage := Some []\<rparr>, 2)"
proof -
  let ?carrier = "[(js ''UberCtx-a'', Undefined)]"
  let ?p = "new_JaegerPropagator None"
  have k: "filter UBER_BAGGAGE_HEADER_REGEX_test (keys object_getter ?carrier) = [js ''UberCtx-a'']"
    by (simp add: object_getter_def UBER_BAGGAGE_HEADER_REGEX_test_def js_def
        ascii_lower_def is_line_terminator_def)
  have u: "first_if_array (get object_getter ?carrier (js ''UberCtx-a'')) = None"
    by (simp add: object_getter_def js_def)
  have ks: "keys object_getter ?carrier = [js ''UberCtx-a'']"
    by (simp add: object_getter_def)
  have m: "\<exists>key \<in> set (keys object_getter ?carrier). UBER_BAGGAGE_HEADER_REGEX_test key"
    using k by (simp add: ks split: if_splits)
  have a: "\<forall>key \<in> set (keys object_getter ?carrier).
             UBER_BAGGAGE_HEADER_REGEX_test key \<longrightarrow>
               first_if_array (get object_getter ?carrier key) = None"
    using u by (simp add: ks)
  have t: "\<forall>s. first_if_array (get object_getter ?carrier (jaegerTraceHeader ?p)) = Some s
             \<longrightarrow> decodeURIComponent s \<noteq> Inl URIError"
    by (simp add: object_getter_def new_JaegerPropagator_def UBER_TRACE_ID_HEADER_def js_def)
  have r: "ref empty_context < 1"
    by (simp add: empty_context_def)
  have e: "extract ?p empty_context ?carrier object_getter 1
             = Inr (empty_context\<lparr>ref := 1, baggage := Some []\<rparr>, 2)"
    by (simp add: extract_def Let_def baggageValues_def object_getter_def
        UBER_BAGGAGE_HEADER_REGEX_test_def ascii_lower_def is_line_terminator_def
        new_JaegerPropagator_def UBER_TRACE_ID_HEADER_def js_def getBaggage_def
        empty_context_def createBaggage_def setBaggage_def)
  from extract_attaches_unchanged_baggage [OF m a t r] k u r e show ?thesis
    by simp
qed

section \<open>Injecting\<close>

lemma inject_entries_throws_iff:
  "snd (inject_entries setter c es) = Some URIError \<longleftrightarrow>
     (\<exists>(key, entry) \<in> set es. \<not> isWellFormed (entry_value entry))"
proof (induction es arbitrary: c)
  case Nil
  then show ?case by simp
next
  case (Cons x es)
  obtain key entry where x: "x = (key, entry)" by (cases x)
  show ?case
  proof (cases "encodeURIComponent (entry_value entry)")
    case (Inl e)
    then show ?thesis
      using encodeURIComponent_throws_iff [of "entry_value entry"]
      by (simp add: x error_is_URIError)
  next
    case (Inr v)
    then show ?thesis
      using encodeURIComponent_throws_iff [of "entry_value entry"] Cons.IH
      by (simp add: x)
  qed
qed

lemma inject_throws_iff:
  "snd (inject this context carrier setter) = Some URIError \<longleftrightarrow>
     (\<exists>(key, entry) \<in> set (baggage_entries context). \<not> isWellFormed (entry_value entry))"
  by (cases "getBaggage context")
     (simp_all add: inject_def baggage_entries_def Let_def inject_entries_throws_iff)

lemma encoded_values:
  "\<forall>(key, entry) \<in> set es. isWellFormed (entry_value entry) \<Longrightarrow>
   \<exists>vs. list_all2 (\<lambda>(key, entry) v. encodeURIComponent (entry_value entry) = Inr v) es vs"
proof (induction es)
  case Nil
  then show ?case by simp
next
  case (Cons x es)
  obtain key entry where x: "x = (key, entry)" by (cases x)
  from Cons.prems obtain v where "encodeURIComponent (entry_value entry) = Inr v"
    using encodeURIComponent_wellformed [of "entry_value entry"] by (auto simp: x)
  moreover from Cons obtain vs where
    "list_all2 (\<lambda>(key, entry) v. encodeURIComponent (entry_value entry) = Inr v) es vs"
    by auto
  ultimately have
    "list_all2 (\<lambda>(key, entry) v. encodeURIComponent (entry_value entry) = Inr v) (x # es) (v # vs)"
    by (simp add: x)
  then show ?case by blast
qed

lemma inject_entries_calls:
  "list_all2 (\<lambda>(key, entry) v. encodeURIComponent (entry_value entry) = Inr v) es vs \<Longrightarrow>
   inject_entries setter c es =
     (foldl (\<lambda>c (h, v). setter c h v) c
        (map (\<lambda>((key, entry), v). (js ''uberctx-'' @ key, v)) (zip es vs)), None)"
proof (induction es vs arbitrary: c rule: list_all2_induct)
  case Nil
  then show ?case by simp
next
  case (Cons x xs v vs)
  obtain key entry where x: "x = (key, entry)" by (cases x)
  have p: "UBER_BAGGAGE_HEADER_PREFIX @ js ''-'' @ key = js ''uberctx-'' @ key"
    by (simp add: UBER_BAGGAGE_HEADER_PREFIX_def js_def)
  from Cons show ?case
    by (simp add: x p)
qed

lemma foldl_record_call:
  "foldl (\<lambda>c (h, v). record_call c h v) c calls = c @ calls"
  by (induction calls arbitrary: c) (auto simp: record_call_def)


text \<open>
  Claim C5, as stated, fails: \<^verbatim>\<open>encodeURIComponent\<close> raises \<^verbatim>\<open>URIError\<close> on a
  baggage value with an unpaired surrogate, and \<^verbatim>\<open>inject\<close> stops there. On this
  suppressed context with two baggage entries it writes no baggage header at all.
\<close>

theorem suppressed_inject_stops_at_unpaired_surrogate:
  "isTracingSuppressed
     (example_context\<lparr>tracingSuppressed := True,
        baggage := Some [(js ''k1'', \<lparr>entry_value = [0xD800], metadata = None\<rparr>),
                         (js ''k2'', \<lparr>entry_value = js ''v'', metadata = None\<rparr>)]\<rparr>)
   \<and> inject (new_JaegerPropagator None)
         (example_context\<lparr>tracingSuppressed := True,
            baggage := Some [(js ''k1'', \<lparr>entry_value = [0xD800], metadata = None\<rparr>),
                             (js ''k2'', \<lparr>entry_value = js ''v'', metadata = None\<rparr>)]\<rparr>)
         [] record_call = ([], Some URIError)"
  by (simp add: isTracingSuppressed_def inject_def getSpanContext_def getBaggage_def
      example_context_def getAllEntries_def encodeURIComponent_def unescaped_def
      is_trailing_surrogate_def is_leading_surrogate_def)

text \<open>
  Claim C5, amended. Provided no baggage value has an unpaired surrogate, \<^verbatim>\<open>inject\<close>
  writes one header per baggage entry, named \<^verbatim>\<open>uberctx-\<close> and the key, holding the
  percent-encoded value, in the order of the entries. On a suppressed context these are
  the only setter calls, also when the context carries a span context. The same calls
  are made for every context with the same baggage, whatever its span context and
  suppression flag: only the trace header call in front of them depends on those.
\<close>

theorem inject_baggage_headers:
  assumes "\<forall>(key, entry) \<in> set (baggage_entries context). isWellFormed (entry_value entry)"
  shows "\<exists>calls.
           list_all2 (\<lambda>(key, entry) (h, v).
               h = js ''uberctx-'' @ key \<and> encodeURIComponent (entry_value entry) = Inr v)
             (baggage_entries context) calls
           \<and> (isTracingSuppressed context \<longrightarrow>
                inject this context [] record_call = (calls, None))
           \<and> (\<forall>this' context'. getBaggage context' = getBaggage context \<longrightarrow>
                inject this' context' [] record_call =
                  ((case getSpanContext context' of
                      None \<Rightarrow> []
                    | Some sc \<Rightarrow>
                        if isTracingSuppressed context' then []
                        else [(jaegerTraceHeader this', trace_header_value sc)]) @ calls,
                   None))"
proof -
  let ?es = "baggage_entries context"
  from assms obtain vs where
    vs: "list_all2 (\<lambda>(key, entry) v. encodeURIComponent (entry_value entry) = Inr v) ?es vs"
    using encoded_values by blast
  let ?calls = "map (\<lambda>((key, entry), v). (js ''uberctx-'' @ key, v)) (zip ?es vs)"
  have len: "length ?es = length vs"
    using vs by (rule list_all2_lengthD)
  have 1: "list_all2 (\<lambda>(key, entry) (h, v).
               h = js ''uberctx-'' @ key \<and> encodeURIComponent (entry_value entry) = Inr v)
             ?es ?calls"
    using vs by (induction rule: list_all2_induct) auto
  have ie: "inject_entries record_call c ?es = (c @ ?calls, None)" for c
    by (simp add: inject_entries_calls [OF vs] foldl_record_call)
  have 3: "inject this' context' [] record_call =
             ((case getSpanContext context' of
                 None \<Rightarrow> []
               | Some sc \<Rightarrow>
                   if isTracingSuppressed context' then []
                   else [(jaegerTraceHeader this', trace_header_value sc)]) @ ?calls,
              None)"
    if "getBaggage context' = getBaggage context" for this' context'
  proof (cases "getBaggage context")
    case None
    then have "?es = []" by (simp add: baggage_entries_def)
    with len have "?calls = []" by simp
    with None that show ?thesis
      by (simp add: inject_def Let_def record_call_def split: option.splits)
  next
    case (Some b)
    then have "?es = getAllEntries b" by (simp add: baggage_entries_def)
    with Some that ie show ?thesis
      by (simp add: inject_def Let_def record_call_def split: option.splits)
  qed
  have 2: "inject this context [] record_call = (?calls, None)" if "isTracingSuppressed context"
    using 3 [of "context" "this"] that by (simp split: option.splits)
  from 1 2 3 show ?thesis by blast
qed


theorem inject_baggage_headers_witness:
  "isTracingSuppressed
     (example_context\<lparr>tracingSuppressed := True,
        baggage := Some [(js ''k'', \<lparr>entry_value = js ''v w'', metadata = None\<rparr>)]\<rparr>)
   \<and> getSpanContext
         (example_context\<lparr>tracingSuppressed := True,
            baggage := Some [(js ''k'', \<lparr>entry_value = js ''v w'', metadata = None\<rparr>)]\<rparr>)
       = Some example_span_context
   \<and> isWellFormed (js ''v w'')
   \<and> inject (new_JaegerPropagator None)
         (example_context\<lparr>tracingSuppressed := True,
            baggage := Some [(js ''k'', \<lparr>entry_value = js ''v w'', metadata = None\<rparr>)]\<rparr>)
         [] record_call = ([(js ''uberctx-k'', js ''v%20w'')], None)"
proof -
  let ?ctx = "example_context\<lparr>tracingSuppressed := True,
                baggage := Some [(js ''k'', \<lparr>entry_value = js ''v w'', metadata = None\<rparr>)]\<rparr>"
  let ?p = "new_JaegerPropagator None"
  have s: "isTracingSuppressed ?ctx"
    by (simp add: isTracingSuppressed_def)
  have g: "getSpanContext ?ctx = Some example_span_context"
    by (simp add: getSpanContext_def example_context_def)
  have w: "isWellFormed (js ''v w'')"
    by (simp add: js_def is_leading_surrogate_def is_trailing_surrogate_def)
  have es: "baggage_entries ?ctx = [(js ''k'', \<lparr>entry_value = js ''v w'', metadata = None\<rparr>)]"
    by (simp add: baggage_entries_def getBaggage_def getAllEntries_def)
  have e: "encodeURIComponent (js ''v w'') = Inr (js ''v%20w'')"
    by (simp add: encodeURIComponent_def js_def unescaped_def is_trailing_surrogate_def
        is_leading_surrogate_def utf8_octets_def percent_octet_def upper_hex_digit_def)
  have a: "\<forall>(key, entry) \<in> set (baggage_entries ?ctx). isWellFormed (entry_value entry)"
    using w by (simp add: es)
  from inject_baggage_headers [OF a, of ?p] obtain calls where
    c: "list_all2 (\<lambda>(key, entry) (h, v).
            h = js ''uberctx-'' @ key \<and> encodeURIComponent (entry_value entry) = Inr v)
          (baggage_entries ?ctx) calls"
    and i: "isTracingSuppressed ?ctx \<longrightarrow> inject ?p ?ctx [] record_call = (calls, None)"
    by blast
  from c obtain h v where "calls = [(h, v)]" and "h = js ''uberctx-'' @ js ''k''"
    and "encodeURIComponent (js ''v w'') = Inr v"
    unfolding es by (auto simp: list_all2_Cons1)
  then have "calls = [(js ''uberctx-k'', js ''v%20w'')]"
    by (simp add: e) (simp add: js_def)
  with i s g w show ?thesis
    by simp
qed

section \<open>Exceptions\<close>

lemma deserialize_throws_iff:
  "deserializeSpanContext s = Inl URIError \<longleftrightarrow> decodeURIComponent s = Inl URIError"
  by (cases "decodeURIComponent s")
     (auto simp: deserializeSpanContext_def error_is_URIError split: list.splits)

text \<open>
  Claim C1, as stated, fails: \<^verbatim>\<open>decodeURIComponent\<close> raises \<^verbatim>\<open>URIError\<close> on a
  malformed escape and \<^verbatim>\<open>encodeURIComponent\<close> on an unpaired surrogate, and the
  propagator catches neither. Decoding \<^verbatim>\<open>%\<close> raises; so does extracting a trace
  header \<^verbatim>\<open>%\<close> or a baggage header \<^verbatim>\<open>%2\<close>, and injecting a baggage value that is
  a lone trailing surrogate.
\<close>

theorem core_raises_URIError:
  "deserializeSpanContext (js ''%'') = Inl URIError
   \<and> extract (new_JaegerPropagator None) empty_context
         [(js ''uber-trace-id'', Str (js ''%''))] object_getter 1 = Inl URIError
   \<and> extract (new_JaegerPropagator None) empty_context
         [(js ''uberctx-k'', Str (js ''%2''))] object_getter 1 = Inl URIError
   \<and> snd (inject (new_JaegerPropagator None)
            (empty_context\<lparr>baggage :=
               Some [(js ''k'', \<lparr>entry_value = [0xDC00], metadata = None\<rparr>)]\<rparr>)
            [] record_call) = Some URIError"
proof -
  let ?p = "new_JaegerPropagator None"
  have d1: "decodeURIComponent (js ''%'') = Inl URIError"
    by (simp add: decodeURIComponent_def js_def)
  have d2: "decodeURIComponent (js ''%2'') = Inl URIError"
    by (simp add: decodeURIComponent_def js_def)
  have 1: "deserializeSpanContext (js ''%'') = Inl URIError"
    using d1 by (simp add: deserialize_throws_iff)
  have "first_if_array (get object_getter [(js ''uber-trace-id'', Str (js ''%''))]
          (jaegerTraceHeader ?p)) = Some (js ''%'')"
    by (simp add: object_getter_def new_JaegerPropagator_def UBER_TRACE_ID_HEADER_def)
  with d1 have 2: "extract ?p empty_context [(js ''uber-trace-id'', Str (js ''%''))]
                     object_getter 1 = Inl URIError"
    by (subst extract_throws_iff) blast
  have "(js ''k'', Some (js ''%2''))
          \<in> set (baggageValues [(js ''uberctx-k'', Str (js ''%2''))] object_getter)"
    by (simp add: baggageValues_def object_getter_def UBER_BAGGAGE_HEADER_REGEX_test_def
        UBER_BAGGAGE_HEADER_PREFIX_def substring_def js_def ascii_lower_def
        is_line_terminator_def)
  with d2 have 3: "extract ?p empty_context [(js ''uberctx-k'', Str (js ''%2''))]
                     object_getter 1 = Inl URIError"
    by (subst extract_throws_iff) blast
  have 4: "snd (inject ?p
              (empty_context\<lparr>baggage :=
                 Some [(js ''k'', \<lparr>entry_value = [0xDC00], metadata = None\<rparr>)]\<rparr>)
              [] record_call) = Some URIError"
    by (simp add: inject_throws_iff baggage_entries_def getBaggage_def getAllEntries_def
        is_leading_surrogate_def is_trailing_surrogate_def)
  from 1 2 3 4 show ?thesis by simp
qed

text \<open>
  Claim C1, amended. The only exception the propagator raises is \<^verbatim>\<open>URIError\<close>, and
  only from percent-decoding and percent-encoding. \<^verbatim>\<open>deserializeSpanContext\<close> raises
  it exactly when percent-decoding its input does, so never on an input without
  \<^verbatim>\<open>%\<close>. \<^verbatim>\<open>extract\<close> raises it exactly when percent-decoding the trace header
  does, or percent-decoding the value of a carrier key that matches the baggage pattern.
  \<^verbatim>\<open>inject\<close> raises it exactly when a baggage value has an unpaired surrogate. On
  every other input each operation returns.
\<close>

theorem URIError_is_the_only_exception:
  "(deserializeSpanContext s = Inl URIError \<longleftrightarrow> decodeURIComponent s = Inl URIError)
   \<and> (0x25 \<notin> set s \<longrightarrow> deserializeSpanContext s \<noteq> Inl URIError)
   \<and> (extract this context carrier getter free = Inl URIError \<longleftrightarrow>
        (\<exists>h. first_if_array (get getter carrier (jaegerTraceHeader this)) = Some h
             \<and> decodeURIComponent h = Inl URIError)
        \<or> (\<exists>key v. (key, Some v) \<in> set (baggageValues carrier getter)
             \<and> decodeURIComponent v = Inl URIError))
   \<and> (snd (inject this context carrier' setter) = Some URIError \<longleftrightarrow>
        (\<exists>(key, entry) \<in> set (baggage_entries context). \<not> isWellFormed (entry_value entry)))"
proof -
  have "0x25 \<notin> set s \<longrightarrow> deserializeSpanContext s \<noteq> Inl URIError"
    by (simp add: deserialize_throws_iff decode_plain)
  then show ?thesis
    using deserialize_throws_iff [of s]
      extract_throws_iff [of "this" "context" carrier getter free]
      inject_throws_iff [of "this" "context" carrier' setter]
    by blast
qed

theorem URIError_is_the_only_exception_witness:
  "0x25 \<notin> set (js ''a:b'')
   \<and> deserializeSpanContext (js ''a:b'') \<noteq> Inl URIError
   \<and> decodeURIComponent (js ''v%20w'') = Inr (js ''v w'')
   \<and> extract (new_JaegerPropagator None)
         (empty_context\<lparr>baggage :=
            Some [(js ''k'', \<lparr>entry_value = js ''v w'', metadata = None\<rparr>)]\<rparr>)
         [(js ''uberctx-k'', Str (js ''v%20w''))] object_getter 1 \<noteq> Inl URIError
   \<and> snd (inject (new_JaegerPropagator None)
            (empty_context\<lparr>baggage :=
               Some [(js ''k'', \<lparr>entry_value = js ''v w'', metadata = None\<rparr>)]\<rparr>)
            [] record_call) \<noteq> Some URIError"
proof -
  let ?p = "new_JaegerPropagator None"
  let ?carrier = "[(js ''uberctx-k'', Str (js ''v%20w''))]"
  let ?ctx = "empty_context\<lparr>baggage :=
                Some [(js ''k'', \<lparr>entry_value = js ''v w'', metadata = None\<rparr>)]\<rparr>"
  have n: "0x25 \<notin> set (js ''a:b'')"
    by (simp add: js_def)
  have d: "decodeURIComponent (js ''v%20w'') = Inr (js ''v w'')"
    by (simp add: decodeURIComponent_def js_def ParseHexOctet_def hex_value_def
        leading_ones_def)
  have t: "first_if_array (get object_getter ?carrier (jaegerTraceHeader ?p)) = None"
    by (simp add: object_getter_def new_JaegerPropagator_def UBER_TRACE_ID_HEADER_def js_def)
  have v: "baggageValues ?carrier object_getter = [(js ''k'', Some (js ''v%20w''))]"
    by (simp add: baggageValues_def object_getter_def UBER_BAGGAGE_HEADER_REGEX_test_def
        UBER_BAGGAGE_HEADER_PREFIX_def substring_def js_def ascii_lower_def
        is_line_terminator_def)
  have e: "\<not> ((\<exists>h. first_if_array (get object_getter ?carrier (jaegerTraceHeader ?p)) = Some h
                 \<and> decodeURIComponent h = Inl URIError)
             \<or> (\<exists>key v. (key, Some v) \<in> set (baggageValues ?carrier object_getter)
                 \<and> decodeURIComponent v = Inl URIError))"
    by (simp add: t v d)
  have w: "\<not> (\<exists>(key, entry) \<in> set (baggage_entries ?ctx). \<not> isWellFormed (entry_value entry))"
    by (simp add: baggage_entries_def getBaggage_def getAllEntries_def js_def
        is_leading_surrogate_def is_trailing_surrogate_def)
  from URIError_is_the_only_exception
         [of "js ''a:b''" ?p ?ctx ?carrier object_getter 1 "[]" record_call]
       n d e w
  show ?thesis
    by blast
qed

section \<open>The baggage round trip\<close>

lemma regex_test_header:
  "UBER_BAGGAGE_HEADER_REGEX_test (js ''uberctx-'' @ key) \<longleftrightarrow>
     key \<noteq> [] \<and> \<not> is_line_terminator (hd key)"
  by (cases key) (simp_all add: UBER_BAGGAGE_HEADER_REGEX_test_def js_def ascii_lower_def)

lemma substring_header_Suc:
  "substring (Suc (length UBER_BAGGAGE_HEADER_PREFIX)) (js ''uberctx-'' @ key) = key"
  by (simp add: substring_def UBER_BAGGAGE_HEADER_PREFIX_def js_def)

lemma setEntry_new:
  "key \<notin> fst ` set b \<Longrightarrow> setEntry b key e = b @ [(key, e)]"
  by (induction b) auto

lemma merge_baggage_encoded:
  "list_all2 (\<lambda>(key, entry) v. encodeURIComponent (entry_value entry) = Inr v) es vs \<Longrightarrow>
   distinct (map fst es) \<Longrightarrow> fst ` set es \<inter> fst ` set acc = {} \<Longrightarrow>
   merge_baggage acc (map (\<lambda>((key, entry), v). (key, Some v)) (zip es vs)) =
     Inr (acc @ map (\<lambda>(key, entry). (key, \<lparr>entry_value = entry_value entry, metadata = None\<rparr>))
                  es)"
proof (induction es vs arbitrary: acc rule: list_all2_induct)
  case Nil
  then show ?case by simp
next
  case (Cons x xs v vs)
  obtain key entry where x: "x = (key, entry)" by (cases x)
  let ?e = "\<lparr>entry_value = entry_value entry, metadata = None\<rparr>"
  from Cons.hyps(1) have d: "decodeURIComponent v = Inr (entry_value entry)"
    by (simp add: x decode_encode)
  from Cons.prems have n: "key \<notin> fst ` set acc" and dis: "distinct (map fst xs)"
    and i: "fst ` set xs \<inter> fst ` set (acc @ [(key, ?e)]) = {}"
    by (auto simp: x)
  show ?case
    using Cons.IH [OF dis i] by (simp add: x d setEntry_new [OF n])
qed

lemma zip_encoded_carrier:
  assumes len: "length es = length vs" and dis: "distinct (map fst es)"
  shows "distinct (map fst (map (\<lambda>((key, entry), v). (js ''uberctx-'' @ key, Str v)) (zip es vs)))"
proof -
  have "map fst (map (\<lambda>((key, entry), v). (js ''uberctx-'' @ key, Str v)) (zip es vs))
          = map (\<lambda>key. js ''uberctx-'' @ key) (map fst (map fst (zip es vs)))"
    by (simp add: case_prod_beta comp_def)
  also have "\<dots> = map (\<lambda>key. js ''uberctx-'' @ key) (map fst es)"
    using len by simp
  finally show ?thesis
    using dis by (simp add: distinct_map inj_on_def)
qed

lemma baggageValues_encoded_carrier:
  assumes len: "length es = length vs" and dis: "distinct (map fst es)"
    and ok: "\<forall>(key, entry) \<in> set es. key \<noteq> [] \<and> \<not> is_line_terminator (hd key)"
  shows "baggageValues (map (\<lambda>((key, entry), v). (js ''uberctx-'' @ key, Str v)) (zip es vs))
           object_getter =
         map (\<lambda>((key, entry), v). (key, Some v)) (zip es vs)"
proof -
  let ?carrier = "map (\<lambda>((key, entry), v). (js ''uberctx-'' @ key, Str v)) (zip es vs)"
  have k: "keys object_getter ?carrier = map (\<lambda>((key, entry), v). js ''uberctx-'' @ key) (zip es vs)"
    by (simp add: object_getter_def case_prod_beta comp_def)
  have t: "UBER_BAGGAGE_HEADER_REGEX_test (js ''uberctx-'' @ key)"
    if "((key, entry), v) \<in> set (zip es vs)" for key entry v
  proof -
    from that have "(key, entry) \<in> set es" by (rule set_zip_leftD)
    with ok show ?thesis by (auto simp: regex_test_header)
  qed
  have g: "get object_getter ?carrier (js ''uberctx-'' @ key) = Str v"
    if "((key, entry), v) \<in> set (zip es vs)" for key entry v
  proof -
    from that have "(js ''uberctx-'' @ key, Str v) \<in> set ?carrier" by force
    then have "map_of ?carrier (js ''uberctx-'' @ key) = Some (Str v)"
      using zip_encoded_carrier [OF len dis] by simp
    then show ?thesis by (simp add: object_getter_def)
  qed
  have "filter UBER_BAGGAGE_HEADER_REGEX_test (keys object_getter ?carrier)
          = keys object_getter ?carrier"
    unfolding k using t by (auto simp: filter_id_conv)
  then have "baggageValues ?carrier object_getter =
               map (\<lambda>key. (substring (length UBER_BAGGAGE_HEADER_PREFIX + 1) key,
                           first_if_array (get object_getter ?carrier key)))
                 (map (\<lambda>((key, entry), v). js ''uberctx-'' @ key) (zip es vs))"
    by (simp only: baggageValues_def k)
  also have "\<dots> = map (\<lambda>((key, entry), v). (key, Some v)) (zip es vs)"
    using g by (auto simp: substring_header_Suc)
  finally show ?thesis .
qed

lemma encoded_carrier_decodes:
  assumes enc: "list_all2 (\<lambda>(key, entry) v. encodeURIComponent (entry_value entry) = Inr v) es vs"
    and f: "first_if_array
              (get object_getter
                 (map (\<lambda>((key, entry), v). (js ''uberctx-'' @ key, Str v)) (zip es vs)) h)
            = Some s"
  shows "decodeURIComponent s \<noteq> Inl URIError"
proof -
  let ?carrier = "map (\<lambda>((key, entry), v). (js ''uberctx-'' @ key, Str v)) (zip es vs)"
  from f obtain x where m: "map_of ?carrier h = Some x" and x: "first_if_array x = Some s"
    by (auto simp: object_getter_def split: option.splits)
  from m have "(h, x) \<in> set ?carrier" by (rule map_of_SomeD)
  then obtain key entry v where z: "((key, entry), v) \<in> set (zip es vs)" and "x = Str v"
    by auto
  with x have s: "s = v" by simp
  from enc z have "encodeURIComponent (entry_value entry) = Inr v"
    by (auto simp: list_all2_iff)
  then show ?thesis
    by (simp add: s decode_encode)
qed

lemma extract_merges:
  assumes t: "\<forall>s. first_if_array (get getter carrier (jaegerTraceHeader this)) = Some s
              \<longrightarrow> decodeURIComponent s \<noteq> Inl URIError"
    and ne: "baggageValues carrier getter \<noteq> []"
    and mb: "merge_baggage (case getBaggage context of None \<Rightarrow> createBaggage | Some b \<Rightarrow> b)
               (baggageValues carrier getter) = Inr m"
  shows "\<exists>context' free'.
           extract this context carrier getter free = Inr (context', free')
           \<and> getBaggage context' = Some m"
proof (cases "first_if_array (get getter carrier (jaegerTraceHeader this))")
  case None
  with ne mb show ?thesis
    by (simp add: extract_def Let_def setBaggage_def getBaggage_def)
next
  case (Some s)
  with t obtain res where res: "deserializeSpanContext s = Inr res"
    using deserialize_returns by blast
  from Some res ne mb show ?thesis
    by (cases res)
       (simp_all add: extract_def Let_def setBaggage_def setSpanContext_def getBaggage_def)
qed

lemma inject_record_call:
  assumes vs: "list_all2 (\<lambda>(key, entry) v. encodeURIComponent (entry_value entry) = Inr v)
                 (baggage_entries context) vs"
  shows "inject this context [] record_call =
           ((case getSpanContext context of
               None \<Rightarrow> []
             | Some sc \<Rightarrow>
                 if isTracingSuppressed context then []
                 else [(jaegerTraceHeader this, trace_header_value sc)])
            @ map (\<lambda>((key, entry), v). (js ''uberctx-'' @ key, v))
                (zip (baggage_entries context) vs),
            None)"
proof -
  let ?es = "baggage_entries context"
  let ?calls = "map (\<lambda>((key, entry), v). (js ''uberctx-'' @ key, v)) (zip ?es vs)"
  have ie: "inject_entries record_call c ?es = (c @ ?calls, None)" for c
    by (simp add: inject_entries_calls [OF vs] foldl_record_call)
  show ?thesis
  proof (cases "getBaggage context")
    case None
    then have "?es = []" by (simp add: baggage_entries_def)
    with None show ?thesis
      by (simp add: inject_def Let_def record_call_def split: option.splits)
  next
    case (Some b)
    then have "?es = getAllEntries b" by (simp add: baggage_entries_def)
    with Some ie show ?thesis
      by (simp add: inject_def Let_def record_call_def split: option.splits)
  qed
qed


text \<open>
  Claim C9, as stated, fails. A baggage entry with the empty key is written as the
  header \<^verbatim>\<open>uberctx-\<close>, which the pattern \<^verbatim>\<open>/^uberctx-(.+)/i\<close> does not match, so
  \<^verbatim>\<open>extract\<close> returns the input context without it; the same happens to a key
  that begins with a line feed, which \<^verbatim>\<open>.\<close> does not match; and on a value with an
  unpaired surrogate \<^verbatim>\<open>inject\<close> raises \<^verbatim>\<open>URIError\<close> and writes no header.
\<close>

theorem baggage_roundtrip_fails:
  "inject (new_JaegerPropagator None)
     (empty_context\<lparr>baggage := Some [([], \<lparr>entry_value = js ''v'', metadata = None\<rparr>)]\<rparr>)
     [] record_call = ([(js ''uberctx-'', js ''v'')], None)
   \<and> extract (new_JaegerPropagator None) empty_context
         [(js ''uberctx-'', Str (js ''v''))] object_getter 1 = Inr (empty_context, 1)
   \<and> extract (new_JaegerPropagator None) empty_context
         [(js ''uberctx-'' @ [0x0A, 0x6B], Str (js ''v''))] object_getter 1
       = Inr (empty_context, 1)
   \<and> baggage_entries empty_context = []
   \<and> inject (new_JaegerPropagator None)
         (empty_context\<lparr>baggage :=
            Some [(js ''k'', \<lparr>entry_value = [0xD83D], metadata = None\<rparr>)]\<rparr>)
         [] record_call = ([], Some URIError)"
proof -
  let ?p = "new_JaegerPropagator None"
  have 1: "inject ?p
             (empty_context\<lparr>baggage :=
                Some [([], \<lparr>entry_value = js ''v'', metadata = None\<rparr>)]\<rparr>)
             [] record_call = ([(js ''uberctx-'', js ''v'')], None)"
    by (simp add: inject_def getSpanContext_def getBaggage_def empty_context_def
        getAllEntries_def encodeURIComponent_def unescaped_def record_call_def
        UBER_BAGGAGE_HEADER_PREFIX_def js_def)
  have t: "first_if_array (get object_getter [(k, x)] (jaegerTraceHeader ?p)) = None"
    if "k \<noteq> js ''uber-trace-id''" for k x
    using that
    by (simp add: object_getter_def new_JaegerPropagator_def UBER_TRACE_ID_HEADER_def)
  have n1: "baggageValues [(js ''uberctx-'', Str (js ''v''))] object_getter = []"
    by (simp add: baggageValues_def object_getter_def UBER_BAGGAGE_HEADER_REGEX_test_def
        js_def)
  have n2: "baggageValues [(js ''uberctx-'' @ [0x0A, 0x6B], Str (js ''v''))] object_getter = []"
    by (simp add: baggageValues_def object_getter_def UBER_BAGGAGE_HEADER_REGEX_test_def
        js_def is_line_terminator_def)
  have k1: "js ''uberctx-'' \<noteq> js ''uber-trace-id''"
    by (simp add: js_def)
  have k2: "js ''uberctx-'' @ [0x0A, 0x6B] \<noteq> js ''uber-trace-id''"
    by (simp add: js_def)
  have 2: "extract ?p empty_context [(js ''uberctx-'', Str (js ''v''))] object_getter 1
             = Inr (empty_context, 1)"
    by (simp add: extract_no_baggage_headers [OF n1] t [OF k1])
  have 3: "extract ?p empty_context [(js ''uberctx-'' @ [0x0A, 0x6B], Str (js ''v''))]
             object_getter 1 = Inr (empty_context, 1)"
    by (simp add: extract_no_baggage_headers [OF n2] t [OF k2])
  have 4: "baggage_entries empty_context = []"
    by (simp add: baggage_entries_def getBaggage_def empty_context_def)
  have 5: "inject ?p
             (empty_context\<lparr>baggage :=
                Some [(js ''k'', \<lparr>entry_value = [0xD83D], metadata = None\<rparr>)]\<rparr>)
             [] record_call = ([], Some URIError)"
    by (simp add: inject_def getSpanContext_def getBaggage_def empty_context_def
        getAllEntries_def encodeURIComponent_def unescaped_def is_trailing_surrogate_def
        is_leading_surrogate_def)
  from 1 2 3 4 5 show ?thesis by simp
qed

text \<open>
  Claim C9, amended. For a baggage whose keys are distinct, not empty and not begun by
  a line terminator, and whose values have no unpaired surrogate: \<^verbatim>\<open>inject\<close> makes for
  each entry, in order, one setter call with the header name \<^verbatim>\<open>uberctx-\<close> and the
  key, and the percent-encoded value; and \<^verbatim>\<open>extract\<close>, reading a carrier that holds
  those headers into a context without baggage, returns a context whose baggage has
  the same keys in the same order with the original values. The metadata of an entry is
  not carried.
\<close>

theorem baggage_roundtrip:
  assumes dis: "distinct (map fst b)"
    and ok: "\<forall>(key, entry) \<in> set b.
               key \<noteq> [] \<and> \<not> is_line_terminator (hd key) \<and> isWellFormed (entry_value entry)"
    and gb: "getBaggage context = Some b"
    and nb: "getBaggage context' = None"
  shows "\<exists>calls.
           list_all2 (\<lambda>(key, entry) (h, v).
               h = js ''uberctx-'' @ key \<and> encodeURIComponent (entry_value entry) = Inr v)
             b calls
           \<and> inject this context [] record_call =
               ((case getSpanContext context of
                   None \<Rightarrow> []
                 | Some sc \<Rightarrow>
                     if isTracingSuppressed context then []
                     else [(jaegerTraceHeader this, trace_header_value sc)]) @ calls,
                None)
           \<and> (\<exists>context'' free'.
                 extract this' context' (map (\<lambda>(h, v). (h, Str v)) calls) object_getter free
                   = Inr (context'', free')
                 \<and> baggage_entries context'' =
                     map (\<lambda>(key, entry).
                            (key, \<lparr>entry_value = entry_value entry, metadata = None\<rparr>)) b)"
proof -
  let ?E = "\<lambda>(key, entry) v. encodeURIComponent (entry_value entry) = Inr v"
  let ?strip = "\<lambda>(key, entry). (key, \<lparr>entry_value = entry_value entry, metadata = None\<rparr>)"
  from ok have "\<forall>(key, entry) \<in> set b. isWellFormed (entry_value entry)"
    by auto
  then obtain vs where vs: "list_all2 ?E b vs"
    using encoded_values by blast
  then have len: "length b = length vs"
    by (rule list_all2_lengthD)
  from ok have ok': "\<forall>(key, entry) \<in> set b. key \<noteq> [] \<and> \<not> is_line_terminator (hd key)"
    by auto
  let ?calls = "map (\<lambda>((key, entry), v). (js ''uberctx-'' @ key, v)) (zip b vs)"
  let ?carrier = "map (\<lambda>((key, entry), v). (js ''uberctx-'' @ key, Str v)) (zip b vs)"
  have carrier: "map (\<lambda>(h, v). (h, Str v)) ?calls = ?carrier"
    by (simp add: case_prod_beta comp_def)
  have 1: "list_all2 (\<lambda>(key, entry) (h, v).
               h = js ''uberctx-'' @ key \<and> encodeURIComponent (entry_value entry) = Inr v)
             b ?calls"
    using vs by (induction rule: list_all2_induct) auto
  have 2: "inject this context [] record_call =
             ((case getSpanContext context of
                 None \<Rightarrow> []
               | Some sc \<Rightarrow>
                   if isTracingSuppressed context then []
                   else [(jaegerTraceHeader this, trace_header_value sc)]) @ ?calls,
              None)"
    using inject_record_call [of "context" vs "this"] vs gb
    by (simp add: baggage_entries_def getAllEntries_def)
  have 3: "\<exists>context'' free'.
             extract this' context' ?carrier object_getter free = Inr (context'', free')
             \<and> baggage_entries context'' = map ?strip b"
  proof (cases "b = []")
    case True
    then have "extract this' context' ?carrier object_getter free = Inr (context', free)"
      by (simp add: extract_no_baggage_headers baggageValues_def object_getter_def)
    with True nb show ?thesis
      by (simp add: baggage_entries_def)
  next
    case False
    have bv: "baggageValues ?carrier object_getter =
                map (\<lambda>((key, entry), v). (key, Some v)) (zip b vs)"
      by (rule baggageValues_encoded_carrier [OF len dis ok'])
    with False len have ne: "baggageValues ?carrier object_getter \<noteq> []"
      by (cases b; cases vs) simp_all
    have t: "\<forall>s. first_if_array (get object_getter ?carrier (jaegerTraceHeader this')) = Some s
               \<longrightarrow> decodeURIComponent s \<noteq> Inl URIError"
      using encoded_carrier_decodes [OF vs] by blast
    have "merge_baggage [] (map (\<lambda>((key, entry), v). (key, Some v)) (zip b vs))
            = Inr ([] @ map ?strip b)"
      by (rule merge_baggage_encoded [OF vs dis]) simp
    then have mb: "merge_baggage
                     (case getBaggage context' of None \<Rightarrow> createBaggage | Some b \<Rightarrow> b)
                     (baggageValues ?carrier object_getter) = Inr (map ?strip b)"
      by (simp add: nb createBaggage_def bv)
    from extract_merges [OF t ne mb, of free] show ?thesis
      by (auto simp: baggage_entries_def getAllEntries_def)
  qed
  from 1 2 3 show ?thesis
    unfolding carrier [symmetric] by blast
qed


theorem baggage_roundtrip_witness:
  "inject (new_JaegerPropagator None)
     (empty_context\<lparr>baggage :=
        Some [(js ''key1'', \<lparr>entry_value = js ''value1'', metadata = None\<rparr>),
              (js ''key2'', \<lparr>entry_value = js ''value 2/$'', metadata = None\<rparr>)]\<rparr>)
     [] record_call =
       ([(js ''uberctx-key1'', js ''value1''), (js ''uberctx-key2'', js ''value%202%2F%24'')],
        None)
   \<and> (\<exists>context'' free'.
         extract (new_JaegerPropagator None) empty_context
           [(js ''uberctx-key1'', Str (js ''value1'')),
            (js ''uberctx-key2'', Str (js ''value%202%2F%24''))] object_getter 1
           = Inr (context'', free')
         \<and> baggage_entries context'' =
             [(js ''key1'', \<lparr>entry_value = js ''value1'', metadata = None\<rparr>),
              (js ''key2'', \<lparr>entry_value = js ''value 2/$'', metadata = None\<rparr>)])"
proof -
  let ?p = "new_JaegerPropagator None"
  let ?b = "[(js ''key1'', \<lparr>entry_value = js ''value1'', metadata = None\<rparr>),
             (js ''key2'', \<lparr>entry_value = js ''value 2/$'', metadata = None\<rparr>)]"
  let ?ctx = "empty_context\<lparr>baggage := Some ?b\<rparr>"
  have dis: "distinct (map fst ?b)"
    by (simp add: js_def)
  have ok: "\<forall>(key, entry) \<in> set ?b.
              key \<noteq> [] \<and> \<not> is_line_terminator (hd key) \<and> isWellFormed (entry_value entry)"
    by (simp add: js_def is_line_terminator_def is_leading_surrogate_def
        is_trailing_surrogate_def)
  have gb: "getBaggage ?ctx = Some ?b"
    by (simp add: getBaggage_def)
  have nb: "getBaggage empty_context = None"
    by (simp add: getBaggage_def empty_context_def)
  have gs: "getSpanContext ?ctx = None"
    by (simp add: getSpanContext_def empty_context_def)
  have e1: "encodeURIComponent (js ''value1'') = Inr (js ''value1'')"
    by (simp add: encodeURIComponent_def js_def unescaped_def)
  have e2: "encodeURIComponent (js ''value 2/$'') = Inr (js ''value%202%2F%24'')"
    by (simp add: encodeURIComponent_def js_def unescaped_def is_trailing_surrogate_def
        is_leading_surrogate_def utf8_octets_def percent_octet_def upper_hex_digit_def)
  from baggage_roundtrip [OF dis ok gb nb, of ?p ?p 1] obtain calls context'' free' where
    c: "list_all2 (\<lambda>(key, entry) (h, v).
            h = js ''uberctx-'' @ key \<and> encodeURIComponent (entry_value entry) = Inr v)
          ?b calls"
    and i: "inject ?p ?ctx [] record_call =
              ((case getSpanContext ?ctx of
                  None \<Rightarrow> []
                | Some sc \<Rightarrow>
                    if isTracingSuppressed ?ctx then []
                    else [(jaegerTraceHeader ?p, trace_header_value sc)]) @ calls,
               None)"
    and x: "extract ?p empty_context (map (\<lambda>(h, v). (h, Str v)) calls) object_getter 1
              = Inr (context'', free')"
    and r: "baggage_entries context'' =
              map (\<lambda>(key, entry). (key, \<lparr>entry_value = entry_value entry, metadata = None\<rparr>))
                ?b"
    by blast
  from c obtain v1 v2 where "calls = [(js ''uberctx-'' @ js ''key1'', v1),
                                     (js ''uberctx-'' @ js ''key2'', v2)]"
    and "encodeURIComponent (js ''value1'') = Inr v1"
    and "encodeURIComponent (js ''value 2/$'') = Inr v2"
    by (auto simp: list_all2_Cons1)
  then have calls: "calls = [(js ''uberctx-key1'', js ''value1''),
                            (js ''uberctx-key2'', js ''value%202%2F%24'')]"
    by (simp add: e1 e2) (simp add: js_def)
  from i have "inject ?p ?ctx [] record_call = (calls, None)"
    by (simp only: gs option.case append_Nil)
  with x r calls show ?thesis
    by auto
qed

end
